theory Spec2Isabelle
  imports Complex_Main "HOL-Library.Multiset"
begin

section \<open>Strings of the player\<close>

text \<open>
  A JavaScript string is modelled as a \<^typ>\<open>string\<close>: a list of code units, each in the
  range 0..255. The regular expressions of \<open>app.js\<close> only ever accept ASCII code units,
  so a code unit outside that range behaves like any other rejected character.
\<close>

definition is_hex :: "char \<Rightarrow> bool" where
  \<comment> \<open>the class \<open>[a-f0-9]\<close> under the flag \<open>i\<close>\<close>
  "is_hex c = (c \<in> set ''0123456789abcdefABCDEF'')"

definition is_hex_or_hyphen :: "char \<Rightarrow> bool" where
  \<comment> \<open>the class \<open>[a-f0-9-]\<close> under the flag \<open>i\<close>\<close>
  "is_hex_or_hyphen c = (is_hex c \<or> c = CHR ''-'')"

definition is_alnum :: "char \<Rightarrow> bool" where
  \<comment> \<open>the class \<open>[a-zA-Z0-9]\<close>\<close>
  "is_alnum c =
     (c \<in> set ''abcdefghijklmnopqrstuvwxyzABCDEFGHIJKLMNOPQRSTUVWXYZ0123456789'')"

definition ascii_lower :: "char \<Rightarrow> char" where
  "ascii_lower c =
     (case map_of (zip ''ABCDEFGHIJKLMNOPQRSTUVWXYZ'' ''abcdefghijklmnopqrstuvwxyz'') c of
        Some d \<Rightarrow> d
      | None \<Rightarrow> c)"

definition is_js_space :: "char \<Rightarrow> bool" where
  \<comment> \<open>what \<open>String.prototype.trim\<close> strips, among the code units 0..255\<close>
  "is_js_space c =
     (c \<in> {CHR 0x09, CHR 0x0A, CHR 0x0B, CHR 0x0C, CHR 0x0D, CHR '' '', CHR 0xA0})"

definition trim :: "string \<Rightarrow> string" where
  "trim s = rev (dropWhile is_js_space (rev (dropWhile is_js_space s)))"

fun split_char :: "char \<Rightarrow> string \<Rightarrow> string list" where
  \<comment> \<open>\<open>s.split(sep)\<close> for a separator of one character: never the empty array\<close>
  "split_char sep [] = [[]]"
| "split_char sep (c # cs) =
     (if c = sep then [] # split_char sep cs
      else (case split_char sep cs of
              [] \<Rightarrow> [[c]]
            | w # ws \<Rightarrow> (c # w) # ws))"

fun join_char :: "char \<Rightarrow> string list \<Rightarrow> string" where
  \<comment> \<open>\<open>xs.join(sep)\<close>\<close>
  "join_char sep [] = []"
| "join_char sep [x] = x"
| "join_char sep (x # y # ys) = x @ sep # join_char sep (y # ys)"

fun show_nat :: "nat \<Rightarrow> string" where
  \<comment> \<open>a number inside a template literal\<close>
  "show_nat n =
     (if n < 10 then [''0123456789'' ! n]
      else show_nat (n div 10) @ [''0123456789'' ! (n mod 10)])"

section \<open>Identifier extraction (\<open>SUNOPlaylist.extractUUID\<close>)\<close>

definition song_here :: "string \<Rightarrow> bool" where
  \<comment> \<open>\<open>/\/song\/([a-f0-9-]{36})/i\<close> matched at the start of \<open>s\<close>\<close>
  "song_here s =
     (map ascii_lower (take 6 s) = ''/song/'' \<and>
      length (take 36 (drop 6 s)) = 36 \<and>
      list_all is_hex_or_hyphen (take 36 (drop 6 s)))"

fun song_match :: "string \<Rightarrow> string option" where
  \<comment> \<open>the capture group of the leftmost match\<close>
  "song_match [] = None"
| "song_match (c # cs) =
     (if song_here (c # cs) then Some (take 36 (drop 6 (c # cs))) else song_match cs)"

fun hex_groups :: "nat list \<Rightarrow> string \<Rightarrow> bool" where
  \<comment> \<open>runs of hexadecimal digits of the given lengths, one hyphen between two runs\<close>
  "hex_groups [] s = (s = [])"
| "hex_groups [n] s = (length s = n \<and> list_all is_hex s)"
| "hex_groups (n # m # ns) s =
     (length (take n s) = n \<and> list_all is_hex (take n s) \<and>
      take 1 (drop n s) = ''-'' \<and> hex_groups (m # ns) (drop (Suc n) s))"

definition canonical_uuid :: "string \<Rightarrow> bool" where
  \<comment> \<open>\<open>[a-f0-9]{8}-[a-f0-9]{4}-[a-f0-9]{4}-[a-f0-9]{4}-[a-f0-9]{12}\<close> under the flag \<open>i\<close>\<close>
  "canonical_uuid s = hex_groups [8, 4, 4, 4, 12] s"

fun uuid_match :: "string \<Rightarrow> string option" where
  "uuid_match [] = None"
| "uuid_match (c # cs) =
     (if canonical_uuid (take 36 (c # cs)) then Some (take 36 (c # cs)) else uuid_match cs)"

definition extractUUID :: "string \<Rightarrow> string option" where
  "extractUUID url =
     (case song_match url of
        Some u \<Rightarrow> Some u
      | None \<Rightarrow> uuid_match url)"

fun short_match :: "string \<Rightarrow> string option" where
  \<comment> \<open>\<open>/\/s\/([a-zA-Z0-9]+)/\<close>: leftmost match, greedy capture\<close>
  "short_match [] = None"
| "short_match (c # cs) =
     (if take 3 (c # cs) = ''/s/'' \<and> takeWhile is_alnum (drop 3 (c # cs)) \<noteq> []
      then Some (takeWhile is_alnum (drop 3 (c # cs)))
      else short_match cs)"

definition valid_identifier :: "string \<Rightarrow> bool" where
  \<comment> \<open>what either pattern of \<open>extractUUID\<close> can capture\<close>
  "valid_identifier s = (length s = 36 \<and> list_all is_hex_or_hyphen s)"

section \<open>Compact encoding (\<open>updateURL\<close>, \<open>loadFromURL\<close>)\<close>

text \<open>
  \<open>LZString\<close> is a third-party library loaded beside \<open>app.js\<close>. Its two functions are
  parameters of the model: \<open>compress\<close> for \<open>compressToEncodedURIComponent\<close> and
  \<open>decompress\<close> for \<open>decompressFromEncodedURIComponent\<close>, which answers \<open>null\<close>
  (here \<open>None\<close>) on a token it cannot read.
\<close>

definition lz_inverse :: "(string \<Rightarrow> string) \<Rightarrow> (string \<Rightarrow> string option) \<Rightarrow> bool" where
  \<comment> \<open>the library's contract: decompression undoes compression\<close>
  "lz_inverse compress decompress = (\<forall>s. decompress (compress s) = Some s)"

definition encode :: "(string \<Rightarrow> string) \<Rightarrow> string list \<Rightarrow> string" where
  \<comment> \<open>\<open>updateURL\<close>, lines 963-964\<close>
  "encode compress uuids = compress (join_char CHR '','' uuids)"

definition decode :: "(string \<Rightarrow> string option) \<Rightarrow> string \<Rightarrow> string list option" where
  \<comment> \<open>\<open>loadFromURL\<close>, lines 827-828; \<open>None\<close> is the \<open>TypeError\<close> of \<open>null.split\<close>\<close>
  "decode decompress token = map_option (split_char CHR '','') (decompress token)"

definition decode_legacy :: "string \<Rightarrow> string list" where
  \<comment> \<open>\<open>loadFromURL\<close>, line 830\<close>
  "decode_legacy param = split_char CHR '','' param"

section \<open>The player's state (\<open>class SUNOPlaylist\<close>)\<close>

datatype repeat_mode = RepeatNone | RepeatAll | RepeatOne

datatype load_state = Loading | Loaded | LoadError

text \<open>
  A track is a JavaScript object. The playlist arrays hold references to track objects,
  and the closures of the metadata lookups keep the objects they were started for, so
  the objects live in a store: \<open>heap\<close> maps a reference to the object's fields and
  \<open>nextRef\<close> is the next reference an object literal receives.
\<close>

record track =
  uuid :: string
  mp3Url :: string
  title :: string
  artist :: string
  isLiked :: bool
  error :: "string option"
  thumbnail :: "string option"

type_synonym ref = nat

record player =
  heap :: "ref \<Rightarrow> track"
  nextRef :: ref
  playlist :: "ref list"
  originalPlaylist :: "ref list"
  currentIndex :: nat
  isPlaying :: bool
  shuffleMode :: bool
  repeatMode :: repeat_mode
  loadingStates :: "string \<rightharpoonup> load_state"
  audioSrc :: "string option"

definition tracks_of :: "player \<Rightarrow> track list" where
  \<comment> \<open>the playlist as the user sees it: the fields of each referenced object\<close>
  "tracks_of st = map (heap st) (playlist st)"

definition identifiers_of :: "player \<Rightarrow> string list" where
  "identifiers_of st = map uuid (tracks_of st)"

section \<open>Transport controls\<close>

definition loadTrack :: "int \<Rightarrow> player \<Rightarrow> player" where
  "loadTrack index st =
     (if index < 0 \<or> index \<ge> int (length (playlist st)) then st
      else st\<lparr>currentIndex := nat index,
              audioSrc := Some (mp3Url (heap st (playlist st ! nat index)))\<rparr>)"

definition play :: "bool \<Rightarrow> player \<Rightarrow> player" where
  \<comment> \<open>\<open>started\<close>: the promise of the media element's \<open>play()\<close> is fulfilled; the flag is
      set when it is, taken here as part of the call\<close>
  "play started st =
     (if playlist st = [] then st
      else if started then st\<lparr>isPlaying := True\<rparr> else st)"

definition pause :: "player \<Rightarrow> player" where
  "pause st = st\<lparr>isPlaying := False\<rparr>"

definition togglePlay :: "bool \<Rightarrow> player \<Rightarrow> player" where
  "togglePlay started st = (if isPlaying st then pause st else play started st)"

definition load_and_resume :: "bool \<Rightarrow> int \<Rightarrow> player \<Rightarrow> player" where
  \<comment> \<open>the last two lines of \<open>playNext\<close> and of \<open>playPrevious\<close>\<close>
  "load_and_resume started index st =
     (let st' = loadTrack index st in if isPlaying st' then play started st' else st')"

definition playNext :: "bool \<Rightarrow> player \<Rightarrow> player" where
  "playNext started st =
     (if playlist st = [] then st
      else let nextIndex = int (currentIndex st) + 1 in
        if nextIndex \<ge> int (length (playlist st)) then
          (if repeatMode st = RepeatAll then load_and_resume started 0 st else st)
        else load_and_resume started nextIndex st)"

definition playPrevious :: "bool \<Rightarrow> player \<Rightarrow> player" where
  "playPrevious started st =
     (if playlist st = [] then st
      else let prevIndex = int (currentIndex st) - 1 in
        if prevIndex < 0 then
          (if repeatMode st = RepeatAll
           then load_and_resume started (int (length (playlist st)) - 1) st else st)
        else load_and_resume started prevIndex st)"

definition trackEnded :: "bool \<Rightarrow> player \<Rightarrow> player" where
  \<comment> \<open>the listener of the media element's \<open>ended\<close> event\<close>
  "trackEnded started st =
     (if repeatMode st = RepeatOne then play started st else playNext started st)"

definition handleError :: "bool \<Rightarrow> player \<Rightarrow> player" where
  "handleError started st = playNext started st"

definition toggleRepeat :: "player \<Rightarrow> player" where
  "toggleRepeat st =
     st\<lparr>repeatMode := (case repeatMode st of
                          RepeatNone \<Rightarrow> RepeatAll
                        | RepeatAll \<Rightarrow> RepeatOne
                        | RepeatOne \<Rightarrow> RepeatNone)\<rparr>"

definition clearPlaylist :: "bool \<Rightarrow> player \<Rightarrow> player" where
  \<comment> \<open>\<open>confirmed\<close>: the answer to \<open>confirm('Clear?')\<close>\<close>
  "clearPlaylist confirmed st = (if confirmed then st\<lparr>playlist := []\<rparr> else st)"

text \<open>
  \<open>toggleShuffle\<close> sorts the playlist array with the comparator
  \<open>() => Math.random() - 0.5\<close>. What \<open>Array.prototype.sort\<close> returns under such a
  comparator is decided by the engine and by the random draws; \<open>shuffled\<close> is the array
  that one call leaves behind.
\<close>

definition toggleShuffle :: "(ref list \<Rightarrow> ref list) \<Rightarrow> player \<Rightarrow> player" where
  "toggleShuffle shuffled st =
     (let st1 = st\<lparr>shuffleMode := \<not> shuffleMode st\<rparr>;
          st2 = (if shuffleMode st1
                 then st1\<lparr>originalPlaylist := playlist st1, playlist := shuffled (playlist st1)\<rparr>
                 else st1\<lparr>playlist := originalPlaylist st1\<rparr>);
          st3 = st2\<lparr>currentIndex := 0\<rparr>
      in loadTrack 0 st3)"

section \<open>Loading a playlist (\<open>loadPlaylist\<close>)\<close>

text \<open>
  \<open>resolve\<close> stands for the network call of \<open>resolveShortLink\<close> (\<open>None\<close> for
  \<open>null\<close>), \<open>liked\<close> for \<open>storage.isTrackLiked\<close>. In \<open>loadPlaylist\<close> the loop over the
  lines is one transition, each short link answered by \<open>resolve\<close>; \<open>run_events\<close> below
  lets lookups complete between its rounds.
\<close>

definition input_lines :: "string \<Rightarrow> string list" where
  \<comment> \<open>\<open>text.split('\n').map(l => l.trim()).filter(l => l)\<close>\<close>
  "input_lines text = filter (\<lambda>l. l \<noteq> []) (map trim (split_char CHR 0x0A text))"

definition extract_line :: "(string \<Rightarrow> string option) \<Rightarrow> string \<Rightarrow> string option" where
  \<comment> \<open>lines 912-916\<close>
  "extract_line resolve line =
     (case extractUUID line of
        Some u \<Rightarrow> Some u
      | None \<Rightarrow> (case short_match line of
                   Some shortId \<Rightarrow> resolve shortId
                 | None \<Rightarrow> None))"

definition new_track :: "(string \<Rightarrow> bool) \<Rightarrow> nat \<Rightarrow> string \<Rightarrow> track" where
  \<comment> \<open>the object literal of lines 919-926; \<open>n\<close> is the playlist's length before the push.
      The literal has no \<open>thumbnail\<close>: reading it gives \<open>undefined\<close>, here \<open>None\<close>.\<close>
  "new_track liked n u =
     \<lparr>uuid = u, mp3Url = ''https://cdn1.suno.ai/'' @ u @ ''.mp3'',
      title = ''Track '' @ show_nat (n + 1), artist = ''Loading...'',
      isLiked = liked u, error = None, thumbnail = None\<rparr>"

definition push_track :: "(string \<Rightarrow> bool) \<Rightarrow> string \<Rightarrow> player \<Rightarrow> player" where
  "push_track liked u st =
     st\<lparr>heap := (heap st)(nextRef st := new_track liked (length (playlist st)) u),
        nextRef := Suc (nextRef st),
        playlist := playlist st @ [nextRef st],
        loadingStates := (loadingStates st)(u \<mapsto> Loading)\<rparr>"

definition load_line ::
  "(string \<Rightarrow> string option) \<Rightarrow> (string \<Rightarrow> bool) \<Rightarrow> player \<Rightarrow> string \<Rightarrow> player" where
  \<comment> \<open>one round of the loop; \<open>if (uuid)\<close> rejects \<open>null\<close> and the empty string\<close>
  "load_line resolve liked st line =
     (case extract_line resolve line of
        None \<Rightarrow> st
      | Some u \<Rightarrow> if u = [] then st else push_track liked u st)"

datatype load_outcome = LoadIgnored | NoValidLinks | LookupsStarted

definition begin_load :: "player \<Rightarrow> player" where
  \<comment> \<open>lines 908-909\<close>
  "begin_load st = st\<lparr>playlist := [], loadingStates := Map.empty\<rparr>"

definition finish_load :: "player \<Rightarrow> load_outcome \<times> player" where
  \<comment> \<open>lines 931-940: \<open>NoValidLinks\<close> is the toast of line 932; the lookups started are
      those of the track objects of the new playlist\<close>
  "finish_load st =
     (if playlist st = [] then (NoValidLinks, st)
      else (LookupsStarted, loadTrack 0 st))"

definition loadPlaylist ::
  "(string \<Rightarrow> string option) \<Rightarrow> (string \<Rightarrow> bool) \<Rightarrow> string \<Rightarrow> player \<Rightarrow> load_outcome \<times> player" where
  \<comment> \<open>lines 900-940: up to the start of the metadata lookups, with no lookup of an earlier
      load completing meanwhile\<close>
  "loadPlaylist resolve liked input st =
     (let text = trim input in
      if text = [] then (LoadIgnored, st)
      else finish_load (foldl (load_line resolve liked) (begin_load st) (input_lines text)))"

datatype metadata = Metadata string string "string option" | NoMetadata

definition lookupDone :: "(string \<Rightarrow> string) \<Rightarrow> ref \<Rightarrow> metadata \<Rightarrow> player \<Rightarrow> player" where
  \<comment> \<open>lines 941-950: the continuation of one lookup, closed over the track object \<open>r\<close>.
      \<open>decodeHtml\<close> is \<open>decodeHtmlEntities\<close>, which goes through the DOM. Lines 951-952
      redraw the page and read the playlist; a \<open>TypeError\<close> there comes after the writes
      and changes nothing of the state.\<close>
  "lookupDone decodeHtml r meta st =
     (let t = heap st r in
      case meta of
        Metadata mtitle martist mthumb \<Rightarrow>
          if mtitle \<noteq> [] then
            st\<lparr>heap := (heap st)(r := t\<lparr>title := decodeHtml mtitle, artist := decodeHtml martist,
                                        thumbnail := mthumb\<rparr>),
               loadingStates := (loadingStates st)(uuid t \<mapsto> Loaded)\<rparr>
          else
            st\<lparr>heap := (heap st)(r := t\<lparr>artist := ''Error''\<rparr>),
               loadingStates := (loadingStates st)(uuid t \<mapsto> LoadError)\<rparr>
      | NoMetadata \<Rightarrow>
          st\<lparr>heap := (heap st)(r := t\<lparr>artist := ''Error''\<rparr>),
             loadingStates := (loadingStates st)(uuid t \<mapsto> LoadError)\<rparr>)"

fun lookupsDone :: "(string \<Rightarrow> string) \<Rightarrow> (ref \<times> metadata) list \<Rightarrow> player \<Rightarrow> player" where
  \<comment> \<open>lookups completing one after the other, in the order of the list\<close>
  "lookupsDone decodeHtml [] st = st"
| "lookupsDone decodeHtml ((r, meta) # rest) st =
     lookupsDone decodeHtml rest (lookupDone decodeHtml r meta st)"

definition initial_player :: player where
  \<comment> \<open>the constructor\<close>
  "initial_player =
     \<lparr>heap = (\<lambda>_. \<lparr>uuid = [], mp3Url = [], title = [], artist = [], isLiked = False,
                     error = None, thumbnail = None\<rparr>),
      nextRef = 0, playlist = [], originalPlaylist = [], currentIndex = 0,
      isPlaying = False, shuffleMode = False, repeatMode = RepeatNone,
      loadingStates = Map.empty, audioSrc = None\<rparr>"

section \<open>Lookups completing while a load runs\<close>

text \<open>
  \<open>loadPlaylist\<close> is suspended while a short link resolves, and the continuation of a
  lookup started by an earlier load may run meanwhile. A schedule lists what happens
  after a load has emptied the playlist: a round of its loop, the end of its loop, or the
  completion of a lookup on a track object.
\<close>

datatype event = LineRead string | LoopEnded | LookupCompleted ref metadata

fun run_events ::
  "(string \<Rightarrow> string option) \<Rightarrow> (string \<Rightarrow> bool) \<Rightarrow> (string \<Rightarrow> string) \<Rightarrow> event list
     \<Rightarrow> player \<Rightarrow> player" where
  "run_events resolve liked decodeHtml [] st = st"
| "run_events resolve liked decodeHtml (LineRead line # evs) st =
     run_events resolve liked decodeHtml evs (load_line resolve liked st line)"
| "run_events resolve liked decodeHtml (LoopEnded # evs) st =
     run_events resolve liked decodeHtml evs (snd (finish_load st))"
| "run_events resolve liked decodeHtml (LookupCompleted r meta # evs) st =
     run_events resolve liked decodeHtml evs (lookupDone decodeHtml r meta st)"

definition completes_on :: "ref set \<Rightarrow> event \<Rightarrow> bool" where
  \<comment> \<open>the event is the completion of a lookup on one of the objects \<open>A\<close>\<close>
  "completes_on A e = (case e of LookupCompleted r meta \<Rightarrow> r \<in> A | _ \<Rightarrow> False)"

definition agree_outside :: "ref set \<Rightarrow> player \<Rightarrow> player \<Rightarrow> bool" where
  \<comment> \<open>same playlist, same next reference, same objects outside the existing objects \<open>A\<close>\<close>
  "agree_outside A s s' =
     (playlist s = playlist s' \<and> nextRef s = nextRef s' \<and> A \<subseteq> {..<nextRef s} \<and>
      (\<forall>r. r \<notin> A \<longrightarrow> heap s r = heap s' r))"

section \<open>Restoring from the address bar (\<open>loadFromURL\<close>)\<close>

datatype url_action = LoadShortUrl string | FillInput string | NoRestore

definition truthy :: "string option \<Rightarrow> bool" where
  \<comment> \<open>\<open>params.get\<close> answers \<open>null\<close> or a string; the empty string is falsy\<close>
  "truthy v = (case v of None \<Rightarrow> False | Some s \<Rightarrow> s \<noteq> [])"

definition url_prefix :: string where
  "url_prefix = ''https://suno.com/song/''"

definition song_urls :: "string list \<Rightarrow> string" where
  \<comment> \<open>lines 834-835: the value written to the input\<close>
  "song_urls uuids = join_char CHR 0x0A (map (\<lambda>u. ''https://suno.com/song/'' @ u) uuids)"

definition loadFromURL ::
  "(string \<Rightarrow> string option) \<Rightarrow> string \<Rightarrow> string option \<Rightarrow> string option \<Rightarrow> url_action" where
  \<comment> \<open>\<open>path\<close> is \<open>location.pathname\<close>, \<open>p\<close> and \<open>tracks\<close> are \<open>params.get('p')\<close> and
      \<open>params.get('tracks')\<close>\<close>
  "loadFromURL decompress path p tracks =
     (if take 3 path = ''/p/'' \<and> drop 3 path \<noteq> [] then LoadShortUrl (drop 3 path)
      else
        let compressed = (if truthy p then p else tracks) in
        if truthy compressed then
          (if truthy p then
             (case decode decompress (the compressed) of
                None \<Rightarrow> NoRestore
              | Some uuids \<Rightarrow> FillInput (song_urls uuids))
           else FillInput (song_urls (decode_legacy (the compressed))))
        else NoRestore)"

section \<open>History (\<open>PlaylistStorage.savePlaylist\<close>)\<close>

record stored_track =
  s_uuid :: string
  s_title :: string
  s_artist :: string

record playlist_record =
  rec_id :: nat
  timestamp :: string
  trackCount :: nat
  tracks :: "stored_track list"
  firstTrack :: string

definition MAX_RECENT :: nat where
  "MAX_RECENT = 10"

definition record_uuids :: "playlist_record \<Rightarrow> string list" where
  \<comment> \<open>\<open>p.tracks.map(t => t.uuid)\<close>; two such arrays of strings have the same
      \<open>JSON.stringify\<close> exactly when they are equal\<close>
  "record_uuids p = map s_uuid (tracks p)"

definition make_record :: "nat \<Rightarrow> string \<Rightarrow> track list \<Rightarrow> playlist_record" where
  \<comment> \<open>lines 242-252; \<open>now\<close> is \<open>Date.now()\<close>, \<open>stamp\<close> is \<open>new Date().toISOString()\<close>\<close>
  "make_record now stamp pl =
     \<lparr>rec_id = now, timestamp = stamp, trackCount = length pl,
      tracks = map (\<lambda>t. \<lparr>s_uuid = uuid t, s_title = title t, s_artist = artist t\<rparr>) pl,
      firstTrack = (case pl of [] \<Rightarrow> [] | t # _ \<Rightarrow> title t)\<rparr>"

definition savePlaylist ::
  "nat \<Rightarrow> string \<Rightarrow> bool \<Rightarrow> track list \<Rightarrow> playlist_record list \<Rightarrow> nat option \<times> playlist_record list" where
  \<comment> \<open>\<open>recent\<close> is the list stored under \<open>STORAGE_KEY\<close>; \<open>writable\<close> is false when
      \<open>localStorage.setItem\<close> throws. The result is the returned id and the stored list.\<close>
  "savePlaylist now stamp writable pl recent =
     (if pl = [] then (None, recent)
      else
        let playlistObj = make_record now stamp pl;
            filtered = filter (\<lambda>p. record_uuids p \<noteq> record_uuids playlistObj) recent;
            trimmed = take MAX_RECENT (playlistObj # filtered)
        in if writable then (Some (rec_id playlistObj), trimmed) else (None, recent))"

section \<open>Writing the address bar (\<open>updateURL\<close>)\<close>

definition updateURL :: "(string \<Rightarrow> string) \<Rightarrow> player \<Rightarrow> string \<Rightarrow> string" where
  \<comment> \<open>\<open>query\<close> is the query string of the address bar; an empty playlist is never encoded\<close>
  "updateURL compress st query =
     (if playlist st = [] then query
      else ''?p='' @ encode compress (identifiers_of st))"

section \<open>What a text yields\<close>

definition line_ids :: "(string \<Rightarrow> string option) \<Rightarrow> string \<Rightarrow> string list" where
  \<comment> \<open>the identifier one line contributes to the playlist, if any\<close>
  "line_ids resolve line =
     (case extract_line resolve line of
        None \<Rightarrow> []
      | Some u \<Rightarrow> if u = [] then [] else [u])"

definition extract_all :: "(string \<Rightarrow> string option) \<Rightarrow> string \<Rightarrow> string list" where
  \<comment> \<open>the identifiers extraction yields from the whole input, in order\<close>
  "extract_all resolve input = concat (map (line_ids resolve) (input_lines (trim input)))"

section \<open>Sorting with a random comparator\<close>

text \<open>
  \<open>Math.random()\<close> is taken to return one of the \<open>2 ^ (b + 1)\<close> numbers \<open>k / 2 ^ (b + 1)\<close>,
  each as likely as any other. The comparator \<open>() => Math.random() - 0.5\<close> then answers a
  negative number for \<open>2 ^ b\<close> of them, zero for one and a positive number for the other
  \<open>2 ^ b - 1\<close>. A run of the engine's sort is a tree: it stops with the array it
  leaves behind, or it calls the comparator and goes on according to the sign of the
  answer. No engine is fixed: every such tree is covered.
\<close>

datatype sign = Negative | Zero | Positive

datatype 'a random = Result 'a | Compare "sign \<Rightarrow> 'a random"

primrec prob :: "nat \<Rightarrow> 'a random \<Rightarrow> 'a \<Rightarrow> real" where
  \<comment> \<open>the probability that the run ends with \<open>y\<close>\<close>
  "prob b (Result x) y = (if x = y then 1 else 0)"
| "prob b (Compare f) y =
     (2 ^ b * prob b (f Negative) y + prob b (f Zero) y
        + (2 ^ b - 1) * prob b (f Positive) y) / 2 ^ Suc b"

definition toggleShuffle_random ::
  "(ref list \<Rightarrow> ref list random) \<Rightarrow> player \<Rightarrow> player random" where
  \<comment> \<open>\<open>toggleShuffle\<close> with the engine's sort \<open>engine_sort\<close> run on the playlist array\<close>
  "toggleShuffle_random engine_sort st =
     (if \<not> shuffleMode st
      then map_random (\<lambda>arr. toggleShuffle (\<lambda>_. arr) st) (engine_sort (playlist st))
      else Result (toggleShuffle (\<lambda>arr. arr) st))"

definition dyadic :: "real \<Rightarrow> bool" where
  "dyadic x = (\<exists>(m::int) (n::nat). x = of_int m / 2 ^ n)"

section \<open>Example states\<close>

definition no_short_links :: "string \<Rightarrow> string option" where
  \<comment> \<open>a network on which no short link resolves\<close>
  "no_short_links shortId = None"

definition nothing_liked :: "string \<Rightarrow> bool" where
  "nothing_liked u = False"

definition identity_codec :: "string \<Rightarrow> string" where
  \<comment> \<open>a codec that leaves its input as it is, with \<open>Some\<close> for its inverse\<close>
  "identity_codec s = s"

definition uuid_1 :: string where
  "uuid_1 = ''11111111-1111-1111-1111-111111111111''"

definition uuid_2 :: string where
  "uuid_2 = ''22222222-2222-2222-2222-222222222222''"

definition odd_token :: string where
  \<comment> \<open>36 hexadecimal digits and hyphens, not in the shape 8-4-4-4-12\<close>
  "odd_token = ''abcdef-abcdef-abcdef-abcdef-abcdef-0''"

definition example_input :: string where
  "example_input =
     ''https://x/song/11111111-1111-1111-1111-111111111111'' @ [CHR 0x0A] @
     ''https://x/song/22222222-2222-2222-2222-222222222222''"

definition example_player :: player where
  \<comment> \<open>a fresh player after loading the two links\<close>
  "example_player = snd (loadPlaylist no_short_links nothing_liked example_input initial_player)"

definition example_playing :: player where
  "example_playing = play True example_player"

definition example_at_end :: player where
  \<comment> \<open>playing the last of the two tracks\<close>
  "example_at_end = loadTrack 1 example_playing"

definition second_input :: string where
  "second_input = ''https://suno.com/song/33333333-3333-3333-3333-333333333333''"

definition example_second :: player where
  \<comment> \<open>the example player after a second load, the lookups of the first still pending\<close>
  "example_second = snd (loadPlaylist no_short_links nothing_liked second_input example_player)"

definition plain_text :: "string \<Rightarrow> string" where
  \<comment> \<open>\<open>decodeHtmlEntities\<close> on texts that hold no entity\<close>
  "plain_text s = s"

definition first_load_results :: "(ref \<times> metadata) list" where
  \<comment> \<open>the two lookups of the first load complete: one with metadata, one without\<close>
  "first_load_results = [(0, Metadata ''Song A'' ''Artist A'' None), (1, NoMetadata)]"

definition example_schedule :: "event list" where
  \<comment> \<open>the second load reads its line; the lookups of the first load complete around
      the end of its loop\<close>
  "example_schedule =
     [LineRead second_input, LookupCompleted 0 (Metadata ''Song A'' ''Artist A'' None),
      LoopEnded, LookupCompleted 1 NoMetadata]"

section \<open>The cursor invariant\<close>

definition cursor_in_range :: "player \<Rightarrow> bool" where
  \<comment> \<open>\<open>0 <= currentIndex < length\<close> whenever the playlist is not empty\<close>
  "cursor_in_range st = (playlist st = [] \<or> currentIndex st < length (playlist st))"

section \<open>Facts about the example states\<close>

lemma example_player_playlist: "playlist example_player = [0, 1]"
  unfolding example_player_def example_input_def by code_simp

lemma example_player_identifiers: "identifiers_of example_player = [uuid_1, uuid_2]"
  unfolding example_player_def example_input_def uuid_1_def uuid_2_def by code_simp

lemma example_player_idle:
  "currentIndex example_player = 0 \<and> \<not> isPlaying example_player \<and>
   \<not> shuffleMode example_player \<and> repeatMode example_player = RepeatNone"
  unfolding example_player_def example_input_def by code_simp

lemma example_playing_facts:
  "playlist example_playing = [0, 1] \<and> currentIndex example_playing = 0 \<and>
   isPlaying example_playing \<and> repeatMode example_playing = RepeatNone"
  unfolding example_playing_def example_player_def example_input_def by code_simp

lemma example_at_end_facts:
  "playlist example_at_end = [0, 1] \<and> currentIndex example_at_end = 1 \<and>
   isPlaying example_at_end \<and> repeatMode example_at_end = RepeatNone"
  unfolding example_at_end_def example_playing_def example_player_def example_input_def
  by code_simp

section \<open>Splitting and joining\<close>

lemma split_char_nonempty: "split_char sep s \<noteq> []"
  by (induction s) (auto split: list.splits)

lemma split_no_sep: "sep \<notin> set x \<Longrightarrow> split_char sep x = [x]"
  by (induction x) auto

lemma split_append:
  "sep \<notin> set x \<Longrightarrow> split_char sep (x @ sep # rest) = x # split_char sep rest"
  by (induction x) auto

lemma split_join:
  "xs \<noteq> [] \<Longrightarrow> \<forall>x\<in>set xs. sep \<notin> set x \<Longrightarrow> split_char sep (join_char sep xs) = xs"
  by (induction sep xs rule: join_char.induct) (auto simp: split_no_sep split_append)

lemma comma_rejected: "\<not> is_hex_or_hyphen CHR '',''"
  by code_simp

lemma valid_no_comma: "valid_identifier x \<Longrightarrow> CHR '','' \<notin> set x"
  using comma_rejected by (auto simp: valid_identifier_def list_all_iff)

lemma valid_uuid_1: "valid_identifier uuid_1"
  unfolding uuid_1_def by code_simp

lemma valid_uuid_2: "valid_identifier uuid_2"
  unfolding uuid_2_def by code_simp

lemma identity_codec_inverse: "lz_inverse identity_codec Some"
  by (simp add: lz_inverse_def identity_codec_def)

lemma updateURL_empty: "playlist st = [] \<Longrightarrow> updateURL compress st query = query"
  by (simp add: updateURL_def)

section \<open>The two patterns of the extractor\<close>

lemma song_match_here: "song_here s \<Longrightarrow> song_match s = Some (take 36 (drop 6 s))"
  by (cases s) (auto simp: song_here_def)

lemma uuid_match_canonical: "uuid_match s = Some u \<Longrightarrow> canonical_uuid u"
  by (induction s) (auto split: if_splits)

lemma ascii_lower_song:
  "ascii_lower CHR ''/'' = CHR ''/''" "ascii_lower CHR ''s'' = CHR ''s''"
  "ascii_lower CHR ''o'' = CHR ''o''" "ascii_lower CHR ''n'' = CHR ''n''"
  "ascii_lower CHR ''g'' = CHR ''g''"
  by code_simp+

lemma song_prefix_match:
  assumes "length tok = 36" and "list_all is_hex_or_hyphen tok"
  shows "song_match (''/song/'' @ tok @ rest) = Some tok"
proof -
  have "song_here (''/song/'' @ tok @ rest)"
    using assms by (simp add: song_here_def ascii_lower_song)
  then show ?thesis
    using assms(1) by (simp add: song_match_here del: song_match.simps)
qed

lemma song_prefix_accepts:
  assumes "length tok = 36" and "list_all is_hex_or_hyphen tok"
  shows "extractUUID (''/song/'' @ tok @ rest) = Some tok"
  using song_prefix_match [OF assms] by (simp add: extractUUID_def)

lemma odd_token_length: "length odd_token = 36"
  unfolding odd_token_def by code_simp

lemma odd_token_class: "list_all is_hex_or_hyphen odd_token"
  unfolding odd_token_def by code_simp

lemma odd_token_shape: "\<not> canonical_uuid odd_token"
  unfolding odd_token_def by code_simp

lemma odd_token_extracted:
  "extractUUID (''https://suno.com/song/'' @ odd_token) = Some odd_token"
  unfolding odd_token_def by code_simp

lemma odd_token_bare: "extractUUID odd_token = None"
  unfolding odd_token_def by code_simp

text \<open>
  Claim C10. The resource-path pattern accepts any 36 hexadecimal digits and hyphens
  after \<open>/song/\<close>, whatever their arrangement, and extraction returns them; the token
  \<open>odd_token\<close> is not shaped 8-4-4-4-12, yet it is extracted from a song link, and the
  bare pattern alone does not find it. Whatever the bare pattern matches is shaped
  8-4-4-4-12.
\<close>

theorem song_pattern_any_36:
  "(length tok = 36 \<and> list_all is_hex_or_hyphen tok \<longrightarrow>
      extractUUID (''/song/'' @ tok @ rest) = Some tok)
   \<and> (extractUUID (''https://suno.com/song/'' @ odd_token) = Some odd_token
      \<and> \<not> canonical_uuid odd_token \<and> extractUUID odd_token = None)
   \<and> (uuid_match line = Some u \<longrightarrow> canonical_uuid u)"
  using song_prefix_accepts uuid_match_canonical odd_token_shape odd_token_extracted
    odd_token_bare
  by blast

theorem song_pattern_any_36_witness:
  "length odd_token = 36 \<and> list_all is_hex_or_hyphen odd_token \<and>
   extractUUID (''/song/'' @ odd_token @ ''?share=1'') = Some odd_token \<and>
   uuid_match (''id '' @ uuid_1) = Some uuid_1 \<and> canonical_uuid uuid_1"
proof -
  have m: "uuid_match (''id '' @ uuid_1) = Some uuid_1"
    unfolding uuid_1_def by code_simp
  show ?thesis
    using song_pattern_any_36 [of odd_token "''?share=1''" "''id '' @ uuid_1" uuid_1]
      odd_token_length odd_token_class m
    by blast
qed

section \<open>Frame lemmas of the transport controls\<close>

lemma loadTrack_frame [simp]:
  "playlist (loadTrack i st) = playlist st"
  "heap (loadTrack i st) = heap st"
  "nextRef (loadTrack i st) = nextRef st"
  "isPlaying (loadTrack i st) = isPlaying st"
  "shuffleMode (loadTrack i st) = shuffleMode st"
  "repeatMode (loadTrack i st) = repeatMode st"
  "originalPlaylist (loadTrack i st) = originalPlaylist st"
  by (simp_all add: loadTrack_def)

lemma loadTrack_cursor:
  "0 \<le> i \<Longrightarrow> i < int (length (playlist st)) \<Longrightarrow> currentIndex (loadTrack i st) = nat i"
  by (simp add: loadTrack_def)

lemma play_frame [simp]:
  "playlist (play started st) = playlist st"
  "currentIndex (play started st) = currentIndex st"
  "repeatMode (play started st) = repeatMode st"
  by (simp_all add: play_def)

lemma play_when_playing: "isPlaying st \<Longrightarrow> play started st = st"
  by (simp add: play_def)

lemma load_and_resume_cursor:
  "0 \<le> i \<Longrightarrow> i < int (length (playlist st)) \<Longrightarrow>
   currentIndex (load_and_resume started i st) = nat i"
  by (simp add: load_and_resume_def Let_def loadTrack_cursor)

lemma load_and_resume_playing:
  "isPlaying (load_and_resume started i st) = isPlaying st"
  by (simp add: load_and_resume_def Let_def play_def)

section \<open>Next at the end of the list\<close>

text \<open>
  Claim C3, as amended. For every non-empty playlist with the cursor at the last index:
  under repeat mode \<open>all\<close>, \<open>playNext\<close> sets the cursor to 0; under repeat mode \<open>none\<close>,
  \<open>playNext\<close> returns at once and leaves the whole state as it is, the cursor and the
  playing flag included, so a player that was playing is not made Paused.
\<close>

theorem next_at_last_index:
  assumes "playlist st \<noteq> []"
      and "currentIndex st = length (playlist st) - 1"
  shows "(repeatMode st = RepeatAll \<longrightarrow>
            currentIndex (playNext started st) = 0 \<and>
            isPlaying (playNext started st) = isPlaying st)
       \<and> (repeatMode st = RepeatNone \<longrightarrow> playNext started st = st)"
proof -
  have last: "int (currentIndex st) + 1 \<ge> int (length (playlist st))"
    using assms by (cases "playlist st") simp_all
  have zero: "(0::int) < int (length (playlist st))"
    using assms(1) by simp
  have "currentIndex (load_and_resume started 0 st) = 0"
    using load_and_resume_cursor [of 0 st started] zero by simp
  then show ?thesis
    using assms(1) last by (simp add: playNext_def Let_def load_and_resume_playing)
qed

theorem next_at_last_index_witness:
  "playlist example_at_end \<noteq> [] \<and>
   currentIndex example_at_end = length (playlist example_at_end) - 1 \<and>
   repeatMode example_at_end = RepeatNone \<and>
   playNext True example_at_end = example_at_end \<and>
   playlist (toggleRepeat example_at_end) \<noteq> [] \<and>
   currentIndex (toggleRepeat example_at_end) = length (playlist (toggleRepeat example_at_end)) - 1 \<and>
   repeatMode (toggleRepeat example_at_end) = RepeatAll \<and>
   currentIndex (playNext True (toggleRepeat example_at_end)) = 0"
proof -
  have a: "playlist example_at_end \<noteq> []"
    and b: "currentIndex example_at_end = length (playlist example_at_end) - 1"
    and c: "repeatMode example_at_end = RepeatNone"
    using example_at_end_facts by simp_all
  have a': "playlist (toggleRepeat example_at_end) \<noteq> []"
    and b': "currentIndex (toggleRepeat example_at_end)
               = length (playlist (toggleRepeat example_at_end)) - 1"
    and c': "repeatMode (toggleRepeat example_at_end) = RepeatAll"
    using example_at_end_facts by (simp_all add: toggleRepeat_def)
  show ?thesis
    using next_at_last_index [OF a b, of True] next_at_last_index [OF a' b', of True]
      a b c a' b' c'
    by blast
qed

text \<open>
  The claim as it was stated fails: a player that plays the last track under repeat mode
  \<open>none\<close> is still playing after \<open>playNext\<close>, whether or not the media element would
  start.
\<close>

theorem next_at_last_index_counterexample:
  "playlist example_at_end \<noteq> [] \<and>
   currentIndex example_at_end = length (playlist example_at_end) - 1 \<and>
   repeatMode example_at_end = RepeatNone \<and>
   isPlaying example_at_end \<and>
   isPlaying (playNext True example_at_end) \<and>
   isPlaying (playNext False example_at_end)"
  unfolding example_at_end_def example_playing_def example_player_def example_input_def
  by code_simp

section \<open>A load that finds no identifier\<close>

lemma load_line_frame:
  "currentIndex (load_line r l st x) = currentIndex st"
  "isPlaying (load_line r l st x) = isPlaying st"
  "shuffleMode (load_line r l st x) = shuffleMode st"
  "repeatMode (load_line r l st x) = repeatMode st"
  "originalPlaylist (load_line r l st x) = originalPlaylist st"
  "audioSrc (load_line r l st x) = audioSrc st"
  by (auto simp: load_line_def push_track_def split: option.splits)

lemma foldl_load_line_frame:
  "currentIndex (foldl (load_line r l) st xs) = currentIndex st"
  "isPlaying (foldl (load_line r l) st xs) = isPlaying st"
  "shuffleMode (foldl (load_line r l) st xs) = shuffleMode st"
  "repeatMode (foldl (load_line r l) st xs) = repeatMode st"
  "originalPlaylist (foldl (load_line r l) st xs) = originalPlaylist st"
  "audioSrc (foldl (load_line r l) st xs) = audioSrc st"
  by (induction xs arbitrary: st) (simp_all add: load_line_frame)

lemma identifiers_push:
  "set (playlist st) \<subseteq> {..<nextRef st} \<Longrightarrow>
   identifiers_of (push_track l u st) = identifiers_of st @ [u]"
  by (auto simp: identifiers_of_def tracks_of_def push_track_def new_track_def)

lemma push_bounded:
  "set (playlist st) \<subseteq> {..<nextRef st} \<Longrightarrow>
   set (playlist (push_track l u st)) \<subseteq> {..<nextRef (push_track l u st)}"
  by (auto simp: push_track_def)

lemma load_line_bounded:
  "set (playlist st) \<subseteq> {..<nextRef st} \<Longrightarrow>
   set (playlist (load_line r l st x)) \<subseteq> {..<nextRef (load_line r l st x)}"
  using push_bounded by (auto simp: load_line_def split: option.splits)

lemma load_line_identifiers:
  "set (playlist st) \<subseteq> {..<nextRef st} \<Longrightarrow>
   identifiers_of (load_line r l st x) = identifiers_of st @ line_ids r x"
  by (auto simp: load_line_def identifiers_push line_ids_def split: option.splits)

lemma foldl_load_line_identifiers:
  "set (playlist st) \<subseteq> {..<nextRef st} \<Longrightarrow>
   identifiers_of (foldl (load_line r l) st xs) = identifiers_of st @ concat (map (line_ids r) xs)
   \<and> set (playlist (foldl (load_line r l) st xs)) \<subseteq> {..<nextRef (foldl (load_line r l) st xs)}"
proof (induction xs arbitrary: st)
  case Nil
  then show ?case by simp
next
  case (Cons x xs)
  have b: "set (playlist (load_line r l st x)) \<subseteq> {..<nextRef (load_line r l st x)}"
    using Cons.prems by (rule load_line_bounded)
  show ?case
    using Cons.IH [OF b] load_line_identifiers [OF Cons.prems, of r l x]
    by simp
qed

text \<open>
  The identifiers of the playlist a load builds are the identifiers extraction yields
  from its input.
\<close>

lemma identifiers_loadPlaylist:
  assumes "trim input \<noteq> []"
  shows "identifiers_of (snd (loadPlaylist r l input st)) = extract_all r input"
proof -
  let ?st2 = "foldl (load_line r l) (begin_load st) (input_lines (trim input))"
  have i: "identifiers_of ?st2 = extract_all r input"
    using foldl_load_line_identifiers [of "begin_load st" r l "input_lines (trim input)"]
    by (simp add: extract_all_def identifiers_of_def tracks_of_def begin_load_def)
  have "identifiers_of (loadTrack 0 ?st2) = identifiers_of ?st2"
    by (simp add: identifiers_of_def tracks_of_def)
  then show ?thesis
    using assms i by (simp add: loadPlaylist_def Let_def finish_load_def)
qed

lemma no_identifiers_empty_playlist:
  assumes "extract_all r input = []"
  shows "playlist (foldl (load_line r l) (begin_load st) (input_lines (trim input))) = []"
proof -
  let ?st2 = "foldl (load_line r l) (begin_load st) (input_lines (trim input))"
  have "identifiers_of ?st2 = []"
    using foldl_load_line_identifiers [of "begin_load st" r l "input_lines (trim input)"] assms
    by (simp add: extract_all_def identifiers_of_def tracks_of_def begin_load_def)
  then show ?thesis
    by (simp add: identifiers_of_def tracks_of_def)
qed

text \<open>
  Claim C5, as amended. For every input text from which extraction yields no identifier:
  if the text is blank after trimming, the load returns at once, surfaces nothing and
  leaves the whole state as it is; otherwise it surfaces the condition "no valid links"
  and returns with the cursor, the playing flag, the playback modes, the saved original
  order and the loaded media source as they were before the load.
\<close>

theorem load_without_identifiers:
  assumes "extract_all resolve input = []"
  shows "(trim input = [] \<longrightarrow> loadPlaylist resolve liked input st = (LoadIgnored, st))
       \<and> (trim input \<noteq> [] \<longrightarrow>
            fst (loadPlaylist resolve liked input st) = NoValidLinks
          \<and> currentIndex (snd (loadPlaylist resolve liked input st)) = currentIndex st
          \<and> isPlaying (snd (loadPlaylist resolve liked input st)) = isPlaying st
          \<and> shuffleMode (snd (loadPlaylist resolve liked input st)) = shuffleMode st
          \<and> repeatMode (snd (loadPlaylist resolve liked input st)) = repeatMode st
          \<and> originalPlaylist (snd (loadPlaylist resolve liked input st)) = originalPlaylist st
          \<and> audioSrc (snd (loadPlaylist resolve liked input st)) = audioSrc st)"
proof (cases "trim input = []")
  case True
  then show ?thesis by (simp add: loadPlaylist_def)
next
  case False
  then show ?thesis
    using no_identifiers_empty_playlist [OF assms, of liked st]
    by (simp add: loadPlaylist_def Let_def finish_load_def begin_load_def foldl_load_line_frame)
qed

lemma hello_yields_nothing: "extract_all no_short_links ''hello'' = []"
  by code_simp

lemma blank_yields_nothing: "extract_all no_short_links ''   '' = []"
  by code_simp

lemma hello_not_blank: "trim ''hello'' \<noteq> []"
  by code_simp

lemma blank_is_blank: "trim ''   '' = []"
  by code_simp

theorem load_without_identifiers_witness:
  "extract_all no_short_links ''hello'' = [] \<and> trim ''hello'' \<noteq> [] \<and>
   fst (loadPlaylist no_short_links nothing_liked ''hello'' example_at_end) = NoValidLinks \<and>
   currentIndex (snd (loadPlaylist no_short_links nothing_liked ''hello'' example_at_end))
     = currentIndex example_at_end \<and>
   isPlaying (snd (loadPlaylist no_short_links nothing_liked ''hello'' example_at_end))
     = isPlaying example_at_end \<and>
   extract_all no_short_links ''   '' = [] \<and> trim ''   '' = [] \<and>
   loadPlaylist no_short_links nothing_liked ''   '' example_at_end = (LoadIgnored, example_at_end)"
  using load_without_identifiers [OF hello_yields_nothing, of nothing_liked example_at_end]
    load_without_identifiers [OF blank_yields_nothing, of nothing_liked example_at_end]
    hello_yields_nothing blank_yields_nothing hello_not_blank blank_is_blank
  by blast

text \<open>
  The claim as it was stated fails twice. A blank input yields no identifier and the
  load surfaces nothing. An input with text but no link empties a playlist of two
  tracks.
\<close>

theorem load_without_identifiers_counterexample:
  "extract_all no_short_links ''   '' = [] \<and>
   fst (loadPlaylist no_short_links nothing_liked ''   '' example_playing) = LoadIgnored \<and>
   extract_all no_short_links ''hello'' = [] \<and>
   playlist example_playing = [0, 1] \<and>
   playlist (snd (loadPlaylist no_short_links nothing_liked ''hello'' example_playing)) = []"
  unfolding example_playing_def example_player_def example_input_def
  by code_simp

section \<open>From a restored link back to the playlist\<close>

text \<open>
  \<open>loadFromURL\<close> writes one song link for each decoded identifier into the input, and
  \<open>loadPlaylist\<close> extracts the identifiers again. For valid identifiers the extraction
  gives back exactly the list that was decoded.
\<close>

lemma song_urls_prefix: "song_urls uuids = join_char CHR 0x0A (map (\<lambda>u. url_prefix @ u) uuids)"
  by (simp add: song_urls_def url_prefix_def)

lemma ascii_lower_host:
  "ascii_lower CHR ''h'' = CHR ''h''" "ascii_lower CHR ''t'' = CHR ''t''"
  "ascii_lower CHR ''p'' = CHR ''p''" "ascii_lower CHR '':'' = CHR '':''"
  "ascii_lower CHR ''u'' = CHR ''u''" "ascii_lower CHR ''.'' = CHR ''.''"
  "ascii_lower CHR ''c'' = CHR ''c''" "ascii_lower CHR ''m'' = CHR ''m''"
  "ascii_lower CHR ''/'' = CHR ''/''" "ascii_lower CHR ''s'' = CHR ''s''"
  "ascii_lower CHR ''o'' = CHR ''o''" "ascii_lower CHR ''n'' = CHR ''n''"
  "ascii_lower CHR ''g'' = CHR ''g''"
  by code_simp+

lemma song_match_skip: "\<not> song_here (c # cs) \<Longrightarrow> song_match (c # cs) = song_match cs"
  by simp

lemma host_skipped: "song_match (''https://suno.com'' @ s) = song_match s"
  by (simp add: song_here_def ascii_lower_host song_match_skip del: song_match.simps)

lemma url_prefix_split: "url_prefix @ u = ''https://suno.com'' @ (''/song/'' @ u @ [])"
  by (simp add: url_prefix_def)

lemma song_url_extracted:
  assumes "valid_identifier u"
  shows "extractUUID (url_prefix @ u) = Some u"
proof -
  have "song_match (''/song/'' @ u @ []) = Some u"
    using assms song_prefix_match [of u "[]"] by (simp add: valid_identifier_def)
  then have "song_match (url_prefix @ u) = Some u"
    unfolding url_prefix_split host_skipped .
  then show ?thesis by (simp add: extractUUID_def)
qed

lemma song_url_line_ids:
  "valid_identifier u \<Longrightarrow> line_ids r (url_prefix @ u) = [u]"
  using song_url_extracted [of u]
  by (auto simp: line_ids_def extract_line_def valid_identifier_def)

lemma dropWhile_rev_stable:
  assumes "s \<noteq> []" and "\<not> P (last s)"
  shows "dropWhile P (rev s) = rev s"
proof (cases s rule: rev_cases)
  case Nil
  then show ?thesis using assms(1) by simp
next
  case (snoc ys y)
  then show ?thesis using assms(2) by simp
qed

lemma trim_stable:
  assumes "s \<noteq> []" and "\<not> is_js_space (hd s)" and "\<not> is_js_space (last s)"
  shows "trim s = s"
proof -
  have a: "dropWhile is_js_space s = s"
    using assms(1,2) by (cases s) simp_all
  have b: "dropWhile is_js_space (rev s) = rev s"
    using assms(1,3) by (rule dropWhile_rev_stable)
  show ?thesis
    by (simp add: trim_def a b)
qed

lemma class_not_space: "is_hex_or_hyphen c \<Longrightarrow> \<not> is_js_space c"
  unfolding is_hex_or_hyphen_def is_hex_def is_js_space_def by auto

lemma class_not_newline: "\<not> is_hex_or_hyphen (CHR 0x0A)"
  by code_simp

lemma url_prefix_facts:
  "url_prefix \<noteq> []" "\<not> is_js_space (hd url_prefix)" "CHR 0x0A \<notin> set url_prefix"
  unfolding url_prefix_def by code_simp+

lemma valid_last:
  assumes "valid_identifier u"
  shows "u \<noteq> [] \<and> \<not> is_js_space (last u)"
proof -
  have n: "u \<noteq> []"
    using assms by (auto simp: valid_identifier_def)
  then have "is_hex_or_hyphen (last u)"
    using assms last_in_set [OF n] by (simp add: valid_identifier_def list_all_iff)
  then show ?thesis
    using n class_not_space by simp
qed

lemma song_url_shape:
  assumes "valid_identifier u"
  shows "url_prefix @ u \<noteq> []" "\<not> is_js_space (hd (url_prefix @ u))"
    "\<not> is_js_space (last (url_prefix @ u))" "CHR 0x0A \<notin> set (url_prefix @ u)"
  using assms url_prefix_facts valid_last [OF assms] class_not_newline
  by (auto simp: valid_identifier_def list_all_iff)

lemma join_hd_last:
  "xs \<noteq> [] \<Longrightarrow> \<forall>x\<in>set xs. x \<noteq> [] \<Longrightarrow>
   join_char sep xs \<noteq> [] \<and> hd (join_char sep xs) = hd (hd xs) \<and>
   last (join_char sep xs) = last (last xs)"
  by (induction sep xs rule: join_char.induct) auto


lemma song_urls_lines:
  assumes "uuids \<noteq> []" and "list_all valid_identifier uuids"
  shows "trim (song_urls uuids) \<noteq> []"
    and "input_lines (trim (song_urls uuids)) = map (\<lambda>u. url_prefix @ u) uuids"
proof -
  let ?urls = "map (\<lambda>u. url_prefix @ u) uuids"
  have v: "\<forall>u\<in>set uuids. valid_identifier u"
    using assms(2) by (simp add: list_all_iff)
  have ne: "?urls \<noteq> []"
    using assms(1) by simp
  have each: "\<forall>x\<in>set ?urls. x \<noteq> [] \<and> \<not> is_js_space (hd x) \<and> \<not> is_js_space (last x)
                \<and> CHR 0x0A \<notin> set x"
  proof
    fix x
    assume "x \<in> set ?urls"
    then obtain u where u: "u \<in> set uuids" and x: "x = url_prefix @ u"
      by auto
    from u v have "valid_identifier u"
      by blast
    from song_url_shape [OF this]
    show "x \<noteq> [] \<and> \<not> is_js_space (hd x) \<and> \<not> is_js_space (last x) \<and> CHR 0x0A \<notin> set x"
      unfolding x by blast
  qed
  then have nonempty: "\<forall>x\<in>set ?urls. x \<noteq> []"
    by blast
  have hl: "join_char CHR 0x0A ?urls \<noteq> []"
    "hd (join_char CHR 0x0A ?urls) = hd (hd ?urls)"
    "last (join_char CHR 0x0A ?urls) = last (last ?urls)"
    using join_hd_last [OF ne nonempty, of "CHR 0x0A"] by simp_all
  have "hd ?urls \<in> set ?urls" "last ?urls \<in> set ?urls"
    using ne by (simp_all del: set_map)
  then have "\<not> is_js_space (hd (hd ?urls))" "\<not> is_js_space (last (last ?urls))"
    using each by blast+
  then have t: "trim (song_urls uuids) = song_urls uuids"
    using hl by (simp add: song_urls_prefix trim_stable)
  show "trim (song_urls uuids) \<noteq> []"
    using t hl(1) by (simp add: song_urls_prefix)
  have sp: "split_char CHR 0x0A (join_char CHR 0x0A ?urls) = ?urls"
    using ne each by (intro split_join) blast+
  have "trim x = x" if "x \<in> set ?urls" for x
    using each that trim_stable by blast
  then have mt: "map trim ?urls = ?urls"
    by (rule map_idI)
  have ft: "filter (\<lambda>l. l \<noteq> []) ?urls = ?urls"
    using nonempty by (rule filter_True)
  have "input_lines (trim (song_urls uuids))
          = filter (\<lambda>l. l \<noteq> []) (map trim (split_char CHR 0x0A (join_char CHR 0x0A ?urls)))"
    using t by (simp only: input_lines_def song_urls_prefix)
  also have "\<dots> = filter (\<lambda>l. l \<noteq> []) (map trim ?urls)"
    by (simp only: sp)
  also have "\<dots> = ?urls"
    by (simp only: mt ft)
  finally show "input_lines (trim (song_urls uuids)) = ?urls" .
qed

lemma song_urls_extracted:
  assumes "uuids \<noteq> []" and "list_all valid_identifier uuids"
  shows "extract_all r (song_urls uuids) = uuids"
proof -
  have "concat (map (line_ids r) (map (\<lambda>u. url_prefix @ u) us)) = us"
    if "\<forall>u\<in>set us. valid_identifier u" for us
    using that by (induction us) (simp_all add: song_url_line_ids)
  then show ?thesis
    using assms by (simp add: extract_all_def song_urls_lines(2) list_all_iff)
qed

section \<open>The compact token round trip\<close>

text \<open>
  Claim C1, as amended. For every codec that satisfies the library's contract and every
  non-empty ordered list of valid identifiers, repeated ones included, decoding the
  encoded token gives the list back, in the same order and with the same multiplicity;
  so does decoding the token that \<open>updateURL\<close> writes after \<open>?p=\<close> for a playlist with
  these identifiers. Read from the parameter \<open>p\<close>, the token makes \<open>loadFromURL\<close> fill
  the input with the song links of the list, and loading that input starts the lookups
  of a playlist with exactly these identifiers. The empty list is left out: it joins to
  the empty string, which splits into the list of one empty string.
\<close>

theorem roundtrip_nonempty:
  assumes "lz_inverse compress decompress"
      and "uuids \<noteq> []"
      and "list_all valid_identifier uuids"
  shows "decode decompress (encode compress uuids) = Some uuids
       \<and> (identifiers_of st = uuids \<longrightarrow>
            decode decompress (drop 3 (updateURL compress st query)) = Some uuids)
       \<and> (\<not> (take 3 path = ''/p/'' \<and> drop 3 path \<noteq> []) \<and> encode compress uuids \<noteq> [] \<longrightarrow>
            loadFromURL decompress path (Some (encode compress uuids)) legacy
              = FillInput (song_urls uuids))
       \<and> loadPlaylist resolve liked (song_urls uuids) st'
           = (LookupsStarted, snd (loadPlaylist resolve liked (song_urls uuids) st'))
       \<and> identifiers_of (snd (loadPlaylist resolve liked (song_urls uuids) st')) = uuids"
proof -
  have "\<forall>x\<in>set uuids. CHR '','' \<notin> set x"
    using assms(3) by (simp add: list_all_iff valid_no_comma)
  then have "split_char CHR '','' (join_char CHR '','' uuids) = uuids"
    using assms(2) by (simp add: split_join)
  then have list: "decode decompress (encode compress uuids) = Some uuids"
    using assms(1) by (simp add: decode_def encode_def lz_inverse_def)
  have "playlist st \<noteq> []" if "identifiers_of st = uuids"
    using that assms(2) by (auto simp: identifiers_of_def tracks_of_def)
  then have written: "identifiers_of st = uuids \<longrightarrow>
               decode decompress (drop 3 (updateURL compress st query)) = Some uuids"
    using list by (auto simp: updateURL_def)
  have restored: "\<not> (take 3 path = ''/p/'' \<and> drop 3 path \<noteq> []) \<and> encode compress uuids \<noteq> [] \<longrightarrow>
            loadFromURL decompress path (Some (encode compress uuids)) legacy
              = FillInput (song_urls uuids)"
    using list by (auto simp: loadFromURL_def truthy_def Let_def)
  have nb: "trim (song_urls uuids) \<noteq> []"
    using assms(2,3) by (rule song_urls_lines(1))
  have ids: "identifiers_of (snd (loadPlaylist resolve liked (song_urls uuids) st')) = uuids"
    using identifiers_loadPlaylist [OF nb, of resolve liked st']
      song_urls_extracted [OF assms(2,3), of resolve]
    by simp
  then have "playlist (snd (loadPlaylist resolve liked (song_urls uuids) st')) \<noteq> []"
    using assms(2) by (auto simp: identifiers_of_def tracks_of_def)
  then have "fst (loadPlaylist resolve liked (song_urls uuids) st') = LookupsStarted"
    using nb by (auto simp: loadPlaylist_def Let_def finish_load_def split: if_splits)
  then have started: "loadPlaylist resolve liked (song_urls uuids) st'
           = (LookupsStarted, snd (loadPlaylist resolve liked (song_urls uuids) st'))"
    by (simp add: prod_eq_iff)
  show ?thesis
    using list written restored started ids by blast
qed

theorem roundtrip_nonempty_witness:
  "lz_inverse identity_codec Some \<and> [uuid_1, uuid_2, uuid_1] \<noteq> [] \<and>
   list_all valid_identifier [uuid_1, uuid_2, uuid_1] \<and>
   decode Some (encode identity_codec [uuid_1, uuid_2, uuid_1]) = Some [uuid_1, uuid_2, uuid_1] \<and>
   [uuid_1, uuid_2] \<noteq> [] \<and> list_all valid_identifier [uuid_1, uuid_2] \<and>
   identifiers_of example_player = [uuid_1, uuid_2] \<and>
   decode Some (drop 3 (updateURL identity_codec example_player [])) = Some [uuid_1, uuid_2] \<and>
   identifiers_of (snd (loadPlaylist no_short_links nothing_liked (song_urls [uuid_1, uuid_2])
                          initial_player)) = [uuid_1, uuid_2]"
proof -
  have v: "list_all valid_identifier [uuid_1, uuid_2, uuid_1]"
    by (simp add: valid_uuid_1 valid_uuid_2)
  have n: "[uuid_1, uuid_2, uuid_1] \<noteq> []"
    by simp
  have v': "list_all valid_identifier [uuid_1, uuid_2]"
    by (simp add: valid_uuid_1 valid_uuid_2)
  have n': "[uuid_1, uuid_2] \<noteq> []"
    by simp
  show ?thesis
    using roundtrip_nonempty [OF identity_codec_inverse n v, of initial_player "[]"]
      roundtrip_nonempty [OF identity_codec_inverse n' v',
        of example_player "[]" "''/''" None no_short_links nothing_liked initial_player]
      identity_codec_inverse n v n' v' example_player_identifiers
    by blast
qed

text \<open>
  The claim as it was stated fails at the empty list, whatever the codec: no codec that
  satisfies the contract makes the empty list come back.
\<close>

theorem roundtrip_empty_counterexample:
  "\<not> (\<exists>compress decompress. lz_inverse compress decompress \<and>
        decode decompress (encode compress []) = Some [])"
proof
  assume "\<exists>compress decompress. lz_inverse compress decompress \<and>
            decode decompress (encode compress []) = Some []"
  then obtain compress decompress
    where "lz_inverse compress decompress"
      and "decode decompress (encode compress []) = Some []"
    by blast
  then have "Some (split_char CHR '','' []) = Some []"
    by (simp add: decode_def encode_def lz_inverse_def)
  then show False by simp
qed

section \<open>Shuffle on, shuffle off\<close>

text \<open>
  Claim C6, as amended. For every player with shuffle off, and a sort that leaves a
  permutation of the array behind: after \<open>toggleShuffle\<close> the displayed tracks are the
  same multiset as before, and after a second \<open>toggleShuffle\<close> the playlist is in its
  exact original order, with the same tracks, and shuffle is off again. The cursor is 0
  after each of the two toggles: it is reset, not moved to the identifier it pointed to.
\<close>

theorem shuffle_twice:
  assumes "\<not> shuffleMode st"
      and "mset (shuffled (playlist st)) = mset (playlist st)"
  shows "playlist (toggleShuffle shuffled' (toggleShuffle shuffled st)) = playlist st
       \<and> tracks_of (toggleShuffle shuffled' (toggleShuffle shuffled st)) = tracks_of st
       \<and> \<not> shuffleMode (toggleShuffle shuffled' (toggleShuffle shuffled st))
       \<and> currentIndex (toggleShuffle shuffled' (toggleShuffle shuffled st)) = 0
       \<and> mset (tracks_of (toggleShuffle shuffled st)) = mset (tracks_of st)
       \<and> currentIndex (toggleShuffle shuffled st) = 0"
proof -
  let ?s1 = "toggleShuffle shuffled st"
  let ?s2 = "toggleShuffle shuffled' ?s1"
  have p1: "playlist ?s1 = shuffled (playlist st)"
    and o1: "originalPlaylist ?s1 = playlist st"
    and m1: "shuffleMode ?s1"
    and h1: "heap ?s1 = heap st"
    using assms(1) by (simp_all add: toggleShuffle_def Let_def)
  have c1: "currentIndex ?s1 = 0"
    by (simp add: toggleShuffle_def Let_def loadTrack_def)
  have p2: "playlist ?s2 = playlist st"
    and m2: "\<not> shuffleMode ?s2"
    and h2: "heap ?s2 = heap st"
    using m1 o1 h1 by (simp_all add: toggleShuffle_def Let_def)
  have c2: "currentIndex ?s2 = 0"
    by (simp add: toggleShuffle_def Let_def loadTrack_def)
  have "mset (tracks_of ?s1) = image_mset (heap st) (mset (shuffled (playlist st)))"
    by (simp add: tracks_of_def p1 h1)
  then have ms: "mset (tracks_of ?s1) = mset (tracks_of st)"
    by (simp add: assms(2) tracks_of_def)
  show ?thesis
    using p2 m2 h2 c2 c1 ms by (simp add: tracks_of_def)
qed

theorem shuffle_twice_witness:
  "\<not> shuffleMode example_player \<and>
   mset (rev (playlist example_player)) = mset (playlist example_player) \<and>
   playlist (toggleShuffle rev (toggleShuffle rev example_player)) = playlist example_player \<and>
   currentIndex (toggleShuffle rev (toggleShuffle rev example_player)) = 0 \<and>
   mset (tracks_of (toggleShuffle rev example_player)) = mset (tracks_of example_player)"
proof -
  have a: "\<not> shuffleMode example_player"
    using example_player_idle by simp
  have b: "mset (rev (playlist example_player)) = mset (playlist example_player)"
    by simp
  show ?thesis
    using shuffle_twice [where st = example_player and shuffled = rev and shuffled' = rev, OF a b]
      a b
    by blast
qed

text \<open>
  The claim as it was stated fails on the cursor: with shuffle off and the cursor on the
  second track, two toggles leave the cursor on the first track, another identifier. It
  also fails for a player whose shuffle is on: the first toggle restores the saved order
  and the second sorts again, here leaving the array as it is, so the shuffled order the
  player started from is not restored.
\<close>

theorem shuffle_twice_counterexample:
  "\<not> shuffleMode (loadTrack 1 example_player) \<and>
   identifiers_of (loadTrack 1 example_player) ! currentIndex (loadTrack 1 example_player)
     = uuid_2 \<and>
   identifiers_of (toggleShuffle rev (toggleShuffle rev (loadTrack 1 example_player)))
     ! currentIndex (toggleShuffle rev (toggleShuffle rev (loadTrack 1 example_player)))
     = uuid_1 \<and>
   uuid_1 \<noteq> uuid_2 \<and>
   shuffleMode (toggleShuffle rev example_player) \<and>
   playlist (toggleShuffle rev example_player) = [1, 0] \<and>
   playlist (toggleShuffle id (toggleShuffle id (toggleShuffle rev example_player))) = [0, 1]"
  unfolding example_player_def example_input_def uuid_1_def uuid_2_def
  by code_simp

section \<open>Playing with an empty playlist\<close>

text \<open>
  The cursor half of claim C9 holds for the operations modelled here: each of them keeps
  the cursor inside a non-empty playlist.
\<close>

lemma loadTrack_in_range: "cursor_in_range st \<Longrightarrow> cursor_in_range (loadTrack i st)"
  by (auto simp: cursor_in_range_def loadTrack_def)

lemma play_in_range: "cursor_in_range st \<Longrightarrow> cursor_in_range (play started st)"
  by (auto simp: cursor_in_range_def play_def)

lemma load_and_resume_in_range:
  "cursor_in_range st \<Longrightarrow> cursor_in_range (load_and_resume started i st)"
  by (simp add: load_and_resume_def Let_def loadTrack_in_range play_in_range)

lemma transport_in_range:
  assumes "cursor_in_range st"
  shows "cursor_in_range (pause st)"
    and "cursor_in_range (togglePlay started st)"
    and "cursor_in_range (playNext started st)"
    and "cursor_in_range (playPrevious started st)"
    and "cursor_in_range (trackEnded started st)"
    and "cursor_in_range (handleError started st)"
    and "cursor_in_range (toggleRepeat st)"
    and "cursor_in_range (clearPlaylist confirmed st)"
    and "cursor_in_range (lookupDone decodeHtml r meta st)"
proof -
  show "cursor_in_range (pause st)"
    using assms by (simp add: cursor_in_range_def pause_def)
  then show "cursor_in_range (togglePlay started st)"
    using assms by (simp add: togglePlay_def play_in_range)
  show n: "cursor_in_range (playNext started st)"
    using assms by (simp add: playNext_def Let_def load_and_resume_in_range)
  show "cursor_in_range (playPrevious started st)"
    using assms by (simp add: playPrevious_def Let_def load_and_resume_in_range)
  show "cursor_in_range (trackEnded started st)"
    using assms n by (simp add: trackEnded_def play_in_range)
  show "cursor_in_range (handleError started st)"
    using n by (simp add: handleError_def)
  show "cursor_in_range (toggleRepeat st)"
    using assms by (simp add: cursor_in_range_def toggleRepeat_def)
  show "cursor_in_range (clearPlaylist confirmed st)"
    using assms by (simp add: cursor_in_range_def clearPlaylist_def)
  show "cursor_in_range (lookupDone decodeHtml r meta st)"
    using assms by (auto simp: cursor_in_range_def lookupDone_def Let_def split: metadata.splits)
qed

lemma toggleShuffle_in_range: "cursor_in_range (toggleShuffle shuffled st)"
  by (auto simp: cursor_in_range_def toggleShuffle_def Let_def loadTrack_def)

lemma loadPlaylist_in_range:
  "cursor_in_range st \<Longrightarrow> cursor_in_range (snd (loadPlaylist r l input st))"
  by (auto simp: cursor_in_range_def loadPlaylist_def Let_def finish_load_def loadTrack_def)

text \<open>
  Claim C9, the playing half, fails on the code. A player that plays the first of two
  tracks is still flagged as playing after \<open>clearPlaylist\<close> has emptied the playlist, and
  after a load whose input holds no link has emptied it.
\<close>

theorem playing_with_empty_playlist:
  "isPlaying example_playing \<and>
   playlist (clearPlaylist True example_playing) = [] \<and>
   isPlaying (clearPlaylist True example_playing) \<and>
   playlist (snd (loadPlaylist no_short_links nothing_liked ''hello'' example_playing)) = [] \<and>
   isPlaying (snd (loadPlaylist no_short_links nothing_liked ''hello'' example_playing))"
  unfolding example_playing_def example_player_def example_input_def
  by code_simp

section \<open>The legacy form and the order of the URL forms\<close>

text \<open>
  Claim C7. For every codec that satisfies the library's contract and every list of
  identifiers, the compressed token of the list decodes to the list the legacy
  comma-joined string decodes to. A path \<open>/p/\<close> followed by a short identifier is
  served whatever the query holds; without one, a parameter \<open>p\<close> with a value is decoded
  whatever the parameter \<open>tracks\<close> holds, also when the token is unreadable; the
  parameter \<open>tracks\<close> is read only when neither of the two is there. A form is present
  when its value is not the empty string. When neither the joined string nor its token is
  empty, \<open>loadFromURL\<close> does the same with the token under \<open>p\<close> as with the joined
  string under \<open>tracks\<close>.
\<close>

theorem legacy_and_precedence:
  "(lz_inverse compress decompress \<longrightarrow>
      decode decompress (encode compress uuids)
        = Some (decode_legacy (join_char CHR '','' uuids)))
   \<and> (take 3 path = ''/p/'' \<and> drop 3 path \<noteq> [] \<longrightarrow>
        loadFromURL decompress path p legacy = LoadShortUrl (drop 3 path))
   \<and> (\<not> (take 3 path = ''/p/'' \<and> drop 3 path \<noteq> []) \<and> truthy p \<longrightarrow>
        loadFromURL decompress path p legacy =
          (case decode decompress (the p) of
             None \<Rightarrow> NoRestore
           | Some us \<Rightarrow> FillInput (song_urls us)))
   \<and> (\<not> (take 3 path = ''/p/'' \<and> drop 3 path \<noteq> []) \<and> \<not> truthy p \<and> truthy legacy \<longrightarrow>
        loadFromURL decompress path p legacy
          = FillInput (song_urls (decode_legacy (the legacy))))
   \<and> (lz_inverse compress decompress \<and> join_char CHR '','' uuids \<noteq> [] \<and>
      encode compress uuids \<noteq> [] \<and> \<not> (take 3 path = ''/p/'' \<and> drop 3 path \<noteq> []) \<longrightarrow>
        loadFromURL decompress path (Some (encode compress uuids)) None
          = loadFromURL decompress path None (Some (join_char CHR '','' uuids)))"
  by (auto simp: decode_def encode_def decode_legacy_def lz_inverse_def loadFromURL_def Let_def
      truthy_def)

lemma truthy_facts:
  "truthy (Some ''a,b'')" "\<not> truthy None" "\<not> truthy (Some [])"
  by (simp_all add: truthy_def)

theorem legacy_and_precedence_witness:
  "lz_inverse identity_codec Some \<and>
   decode Some (encode identity_codec [uuid_1, uuid_2])
     = Some (decode_legacy (join_char CHR '','' [uuid_1, uuid_2])) \<and>
   loadFromURL Some ''/p/abc'' (Some ''a,b'') (Some ''c'') = LoadShortUrl ''abc'' \<and>
   loadFromURL Some ''/'' (Some ''a,b'') (Some ''c'')
     = (case decode Some (the (Some ''a,b'')) of
          None \<Rightarrow> NoRestore
        | Some us \<Rightarrow> FillInput (song_urls us)) \<and>
   loadFromURL Some ''/'' None (Some ''a,b'')
     = FillInput (song_urls (decode_legacy (the (Some ''a,b'')))) \<and>
   loadFromURL Some ''/'' (Some (encode identity_codec [uuid_1, uuid_2])) None
     = loadFromURL Some ''/'' None (Some (join_char CHR '','' [uuid_1, uuid_2]))"
proof -
  have short: "take 3 ''/p/abc'' = ''/p/'' \<and> drop 3 ''/p/abc'' \<noteq> []"
    by simp
  have plain: "\<not> (take 3 ''/'' = ''/p/'' \<and> drop 3 ''/'' \<noteq> [])"
    by simp
  have joined: "join_char CHR '','' [uuid_1, uuid_2] \<noteq> []"
    by (simp add: uuid_1_def)
  then have token: "encode identity_codec [uuid_1, uuid_2] \<noteq> []"
    by (simp add: encode_def identity_codec_def)
  have "drop 3 ''/p/abc'' = ''abc''"
    by simp
  then show ?thesis
    using legacy_and_precedence [of identity_codec Some "[uuid_1, uuid_2]" "''/p/abc''"
        "Some ''a,b''" "Some ''c''"]
      legacy_and_precedence [of identity_codec Some "[uuid_1, uuid_2]" "''/''"
        "Some ''a,b''" "Some ''c''"]
      legacy_and_precedence [of identity_codec Some "[uuid_1, uuid_2]" "''/''"
        None "Some ''a,b''"]
      identity_codec_inverse short plain truthy_facts joined token
    by metis
qed

section \<open>History\<close>

lemma record_uuids_make: "record_uuids (make_record now stamp pl) = map uuid pl"
  by (simp add: record_uuids_def make_record_def comp_def)

lemma savePlaylist_stored:
  "pl \<noteq> [] \<Longrightarrow>
   snd (savePlaylist now stamp True pl recent)
     = take 10 (make_record now stamp pl # filter (\<lambda>p. record_uuids p \<noteq> map uuid pl) recent)"
  by (simp add: savePlaylist_def Let_def MAX_RECENT_def record_uuids_make)

lemma savePlaylist_one_copy:
  assumes "pl \<noteq> []"
  shows "filter (\<lambda>p. record_uuids p = map uuid pl) (snd (savePlaylist now stamp True pl recent))
           = [make_record now stamp pl]"
proof -
  have "filter (\<lambda>p. record_uuids p = map uuid pl)
          (take 9 (filter (\<lambda>p. record_uuids p \<noteq> map uuid pl) recent)) = []"
    by (auto simp: filter_empty_conv dest: in_set_takeD)
  then show ?thesis
    by (simp add: savePlaylist_stored [OF assms] record_uuids_make)
qed

text \<open>
  Claim C8. For every stored history and every non-empty playlist saved to it, the
  storage accepting the write: the records whose identifier sequence equals the
  candidate's are removed, the other records keep their order, the new record is put at
  the front and the list is cut to 10 records; exactly one record of the stored list
  then has the candidate's identifier sequence, and it is the first. Saving a second
  playlist with the same identifier sequence, whatever its titles and artists, again
  leaves one such record, the second one, at the front.
\<close>

theorem history_dedup:
  assumes "pl \<noteq> []"
  shows "fst (savePlaylist now stamp True pl recent) = Some now
       \<and> snd (savePlaylist now stamp True pl recent)
           = take 10 (make_record now stamp pl
                        # filter (\<lambda>p. record_uuids p \<noteq> map uuid pl) recent)
       \<and> hd (snd (savePlaylist now stamp True pl recent)) = make_record now stamp pl
       \<and> filter (\<lambda>p. record_uuids p = map uuid pl) (snd (savePlaylist now stamp True pl recent))
           = [make_record now stamp pl]
       \<and> length (snd (savePlaylist now stamp True pl recent)) \<le> 10
       \<and> (pl' \<noteq> [] \<and> map uuid pl' = map uuid pl \<longrightarrow>
            filter (\<lambda>p. record_uuids p = map uuid pl)
              (snd (savePlaylist now' stamp' True pl'
                     (snd (savePlaylist now stamp True pl recent))))
              = [make_record now' stamp' pl']
          \<and> hd (snd (savePlaylist now' stamp' True pl'
                        (snd (savePlaylist now stamp True pl recent))))
              = make_record now' stamp' pl')"
proof -
  have id: "fst (savePlaylist now stamp True pl recent) = Some now"
    using assms by (simp add: savePlaylist_def Let_def make_record_def)
  have second: "filter (\<lambda>p. record_uuids p = map uuid pl)
                  (snd (savePlaylist now' stamp' True pl' h)) = [make_record now' stamp' pl']
              \<and> hd (snd (savePlaylist now' stamp' True pl' h)) = make_record now' stamp' pl'"
    if "pl' \<noteq> []" and "map uuid pl' = map uuid pl" for h
    using savePlaylist_one_copy [OF that(1), of now' stamp' h] that
    by (simp add: savePlaylist_stored)
  show ?thesis
    using id second savePlaylist_one_copy [OF assms, of now stamp recent]
    by (simp add: savePlaylist_stored [OF assms])
qed

lemma example_tracks_nonempty: "tracks_of example_player \<noteq> []"
  by (simp add: tracks_of_def example_player_playlist)

theorem history_dedup_witness:
  "tracks_of example_player \<noteq> [] \<and>
   fst (savePlaylist 1 ''first'' True (tracks_of example_player) []) = Some 1 \<and>
   tracks_of example_playing \<noteq> [] \<and>
   map uuid (tracks_of example_playing) = map uuid (tracks_of example_player) \<and>
   filter (\<lambda>p. record_uuids p = map uuid (tracks_of example_player))
     (snd (savePlaylist 2 ''second'' True (tracks_of example_playing)
            (snd (savePlaylist 1 ''first'' True (tracks_of example_player) []))))
     = [make_record 2 ''second'' (tracks_of example_playing)]"
proof -
  have same: "tracks_of example_playing = tracks_of example_player"
    by (simp add: example_playing_def tracks_of_def play_def)
  then have ne: "tracks_of example_playing \<noteq> []"
    and ids: "map uuid (tracks_of example_playing) = map uuid (tracks_of example_player)"
    using example_tracks_nonempty by simp_all
  show ?thesis
    using history_dedup [OF example_tracks_nonempty, of 1 "''first''" "[]"
        "tracks_of example_playing" 2 "''second''"]
      example_tracks_nonempty ne ids
    by blast
qed

section \<open>A load that supersedes another\<close>

lemma lookupDone_frame [simp]:
  "playlist (lookupDone d r m st) = playlist st"
  "nextRef (lookupDone d r m st) = nextRef st"
  by (auto simp: lookupDone_def Let_def split: metadata.splits)

lemma lookupDone_heap_other: "r' \<noteq> r \<Longrightarrow> heap (lookupDone d r m st) r' = heap st r'"
  by (auto simp: lookupDone_def Let_def split: metadata.splits)

lemma lookupDone_heap_same:
  "heap st r = heap st' r \<Longrightarrow> heap (lookupDone d r m st) r = heap (lookupDone d r m st') r"
  by (auto simp: lookupDone_def Let_def split: metadata.splits)

lemma lookupsDone_frame [simp]:
  "playlist (lookupsDone d evs st) = playlist st"
  "nextRef (lookupsDone d evs st) = nextRef st"
  by (induction d evs st rule: lookupsDone.induct) auto

text \<open>
  Two stores that agree on a set of references keep agreeing on it when the same lookup
  completes in both, and when a lookup of a reference outside the set completes in one
  of them only.
\<close>

lemma lookupsDone_agree:
  assumes "\<forall>r\<in>A. heap st r = heap st' r"
  shows "\<forall>r\<in>A. heap (lookupsDone d evs st) r
                 = heap (lookupsDone d (filter (\<lambda>e. fst e \<in> A) evs) st') r"
  using assms
proof (induction evs arbitrary: st st')
  case Nil
  then show ?case by simp
next
  case (Cons e evs)
  obtain r m where e: "e = (r, m)" by (cases e)
  show ?case
  proof (cases "r \<in> A")
    case True
    have "\<forall>x\<in>A. heap (lookupDone d r m st) x = heap (lookupDone d r m st') x"
      using Cons.prems lookupDone_heap_other [of _ r d m] lookupDone_heap_same [of st r st' d m]
      by metis
    from Cons.IH [OF this] show ?thesis using True e by simp
  next
    case False
    have "\<forall>x\<in>A. heap (lookupDone d r m st) x = heap st' x"
      using Cons.prems False lookupDone_heap_other [of _ r d m st] by metis
    from Cons.IH [OF this] show ?thesis using False e by simp
  qed
qed

lemma push_fresh:
  "set (playlist st) \<subseteq> {lo..<nextRef st} \<Longrightarrow> lo \<le> nextRef st \<Longrightarrow>
   set (playlist (push_track l u st)) \<subseteq> {lo..<nextRef (push_track l u st)}
   \<and> lo \<le> nextRef (push_track l u st)"
  by (auto simp: push_track_def)

lemma load_line_fresh:
  "set (playlist st) \<subseteq> {lo..<nextRef st} \<Longrightarrow> lo \<le> nextRef st \<Longrightarrow>
   set (playlist (load_line r l st x)) \<subseteq> {lo..<nextRef (load_line r l st x)}
   \<and> lo \<le> nextRef (load_line r l st x)"
  using push_fresh by (auto simp: load_line_def split: option.splits)

lemma foldl_load_line_fresh:
  "set (playlist st) \<subseteq> {lo..<nextRef st} \<Longrightarrow> lo \<le> nextRef st \<Longrightarrow>
   set (playlist (foldl (load_line r l) st xs)) \<subseteq> {lo..<nextRef (foldl (load_line r l) st xs)}
   \<and> lo \<le> nextRef (foldl (load_line r l) st xs)"
proof (induction xs arbitrary: st)
  case Nil
  then show ?case by simp
next
  case (Cons x xs)
  from load_line_fresh [OF Cons.prems, of r l x] Cons.IH show ?case by simp
qed

text \<open>The track objects of a load are all created by that load.\<close>

lemma loadPlaylist_fresh:
  assumes "trim input \<noteq> []"
  shows "set (playlist (snd (loadPlaylist r l input st)))
           \<subseteq> {nextRef st..<nextRef (snd (loadPlaylist r l input st))}"
proof -
  let ?st1 = "begin_load st"
  have "set (playlist ?st1) \<subseteq> {nextRef st..<nextRef ?st1}" "nextRef st \<le> nextRef ?st1"
    by (simp_all add: begin_load_def)
  from foldl_load_line_fresh [OF this, of r l "input_lines (trim input)"]
  show ?thesis
    using assms by (simp add: loadPlaylist_def Let_def finish_load_def)
qed

lemma finish_load_frame [simp]:
  "playlist (snd (finish_load st)) = playlist st"
  "heap (snd (finish_load st)) = heap st"
  "nextRef (snd (finish_load st)) = nextRef st"
  by (simp_all add: finish_load_def)

lemma run_events_lines:
  "run_events r l d (map LineRead ls) st = foldl (load_line r l) st ls"
  by (induction ls arbitrary: st) simp_all

lemma run_events_append:
  "run_events r l d (xs @ ys) st = run_events r l d ys (run_events r l d xs st)"
  by (induction r l d xs st rule: run_events.induct) simp_all

lemma run_events_completions:
  "run_events r l d (map (\<lambda>(x, m). LookupCompleted x m) cs) st = lookupsDone d cs st"
  by (induction d cs st rule: lookupsDone.induct) simp_all

text \<open>A load with no completion in between is the schedule of its lines and its end.\<close>

lemma loadPlaylist_schedule:
  "trim input \<noteq> [] \<Longrightarrow>
   snd (loadPlaylist r l input st)
     = run_events r l d (map LineRead (input_lines (trim input)) @ [LoopEnded]) (begin_load st)"
  by (simp add: loadPlaylist_def Let_def run_events_append run_events_lines)

text \<open>
  Two players with the same playlist and the same next reference, whose stores agree
  outside a set \<open>A\<close> of objects that exist already, stay so when one runs a schedule and
  the other the same schedule without the completions on \<open>A\<close>.
\<close>

lemma agree_load_line:
  "agree_outside A s s' \<Longrightarrow> agree_outside A (load_line r l s x) (load_line r l s' x)"
  by (auto simp: agree_outside_def load_line_def push_track_def split: option.splits)

lemma agree_finish:
  "agree_outside A s s' \<Longrightarrow> agree_outside A (snd (finish_load s)) (snd (finish_load s'))"
  by (auto simp: agree_outside_def)

lemma agree_lookup_both:
  "agree_outside A s s' \<Longrightarrow> r \<notin> A \<Longrightarrow>
   agree_outside A (lookupDone d r m s) (lookupDone d r m s')"
  using lookupDone_heap_other [of _ r d m] lookupDone_heap_same [of s r s' d m]
  unfolding agree_outside_def lookupDone_frame by metis

lemma agree_lookup_left:
  "agree_outside A s s' \<Longrightarrow> r \<in> A \<Longrightarrow> agree_outside A (lookupDone d r m s) s'"
  using lookupDone_heap_other [of _ r d m s]
  unfolding agree_outside_def lookupDone_frame by metis

lemma run_events_erase:
  "agree_outside A s s' \<Longrightarrow>
   agree_outside A (run_events r l d evs s)
     (run_events r l d (filter (\<lambda>e. \<not> completes_on A e) evs) s')"
proof (induction r l d evs s arbitrary: s' rule: run_events.induct)
  case (1 resolve liked decodeHtml st)
  then show ?case by simp
next
  case (2 resolve liked decodeHtml line evs st)
  from "2.IH" [OF agree_load_line [OF "2.prems"]] show ?case
    by (simp add: completes_on_def)
next
  case (3 resolve liked decodeHtml evs st)
  from "3.IH" [OF agree_finish [OF "3.prems"]] show ?case
    by (simp add: completes_on_def)
next
  case (4 resolve liked decodeHtml r meta evs st)
  show ?case
  proof (cases "r \<in> A")
    case True
    from "4.IH" [OF agree_lookup_left [OF "4.prems" True]] True show ?thesis
      by (simp add: completes_on_def)
  next
    case False
    from "4.IH" [OF agree_lookup_both [OF "4.prems" False]] False show ?thesis
      by (simp add: completes_on_def)
  qed
qed

lemma run_events_fresh:
  "set (playlist st) \<subseteq> {lo..<nextRef st} \<Longrightarrow> lo \<le> nextRef st \<Longrightarrow>
   set (playlist (run_events r l d evs st)) \<subseteq> {lo..<nextRef (run_events r l d evs st)}
   \<and> lo \<le> nextRef (run_events r l d evs st)"
proof (induction r l d evs st rule: run_events.induct)
  case (1 resolve liked decodeHtml st)
  then show ?case by simp
next
  case (2 resolve liked decodeHtml line evs st)
  from load_line_fresh [OF "2.prems", of resolve liked line] "2.IH" show ?case by simp
next
  case (3 resolve liked decodeHtml evs st)
  then show ?case by simp
next
  case (4 resolve liked decodeHtml r meta evs st)
  then show ?case by simp
qed

lemma schedule_erase_tracks:
  assumes "A \<subseteq> {..<nextRef st}"
  shows "tracks_of (run_events r l d evs (begin_load st))
           = tracks_of (run_events r l d (filter (\<lambda>e. \<not> completes_on A e) evs) (begin_load st))"
proof -
  let ?s = "begin_load st"
  let ?a = "run_events r l d evs ?s"
  let ?b = "run_events r l d (filter (\<lambda>e. \<not> completes_on A e) evs) ?s"
  have "agree_outside A ?s ?s"
    using assms by (simp add: agree_outside_def begin_load_def)
  then have ag: "agree_outside A ?a ?b"
    by (rule run_events_erase)
  have "set (playlist ?s) \<subseteq> {nextRef st..<nextRef ?s}" "nextRef st \<le> nextRef ?s"
    by (simp_all add: begin_load_def)
  from run_events_fresh [OF this, of r l d evs]
  have "set (playlist ?a) \<subseteq> {nextRef st..<nextRef ?a}"
    by simp
  then have "\<forall>x\<in>set (playlist ?a). x \<notin> A"
    using assms by fastforce
  then show ?thesis
    using ag by (simp add: tracks_of_def agree_outside_def)
qed


text \<open>
  Claim C2. A first load has started its metadata lookups, one for each track object of
  its playlist \<open>playlist st1\<close>; some of them may complete (\<open>before\<close>); then a second load
  empties the playlist and runs. Whatever the schedule of the rounds of its loop and of
  the completions of lookups, the tracks of the playlist are those that the same
  schedule gives without the completions of the first load's lookups: these write to
  none of the tracks of the second playlist. When the second load, with a non-blank
  input, runs without a completion in between, the two playlists share no track object;
  whatever lookups complete afterwards (\<open>after\<close>), in whatever order and with whatever
  results, the first load's change nothing in the tracks of the playlist, and when only
  the first load's lookups complete, the tracks are as the second load made them.
\<close>

theorem superseded_lookups_invisible:
  assumes "loadPlaylist resolve1 liked1 input1 st0 = (LookupsStarted, st1)"
      and "trim input2 \<noteq> []"
      and "loadPlaylist resolve2 liked2 input2 (lookupsDone decodeHtml before st1)
             = (outcome2, st2)"
  shows "tracks_of (run_events resolve3 liked3 decodeHtml schedule
                     (begin_load (lookupsDone decodeHtml before st1)))
           = tracks_of (run_events resolve3 liked3 decodeHtml
                          (filter (\<lambda>e. \<not> completes_on (set (playlist st1)) e) schedule)
                          (begin_load (lookupsDone decodeHtml before st1)))
       \<and> set (playlist st1) \<inter> set (playlist st2) = {}
       \<and> playlist (lookupsDone decodeHtml after st2) = playlist st2
       \<and> tracks_of (lookupsDone decodeHtml after st2)
           = tracks_of (lookupsDone decodeHtml
                          (filter (\<lambda>e. fst e \<notin> set (playlist st1)) after) st2)
       \<and> (list_all (\<lambda>e. fst e \<in> set (playlist st1)) after \<longrightarrow>
            tracks_of (lookupsDone decodeHtml after st2) = tracks_of st2)"
proof -
  have t1: "trim input1 \<noteq> []"
    using assms(1) by (auto simp: loadPlaylist_def Let_def split: if_splits)
  have b1: "set (playlist st1) \<subseteq> {nextRef st0..<nextRef st1}"
    using loadPlaylist_fresh [OF t1, of resolve1 liked1 st0] assms(1) by simp
  then have old: "set (playlist st1) \<subseteq> {..<nextRef (lookupsDone decodeHtml before st1)}"
    by fastforce
  have sched: "tracks_of (run_events resolve3 liked3 decodeHtml schedule
                     (begin_load (lookupsDone decodeHtml before st1)))
           = tracks_of (run_events resolve3 liked3 decodeHtml
                          (filter (\<lambda>e. \<not> completes_on (set (playlist st1)) e) schedule)
                          (begin_load (lookupsDone decodeHtml before st1)))"
    using old by (rule schedule_erase_tracks)
  have b2: "set (playlist st2) \<subseteq> {nextRef st1..<nextRef st2}"
    using loadPlaylist_fresh [OF assms(2), of resolve2 liked2 "lookupsDone decodeHtml before st1"]
      assms(3)
    by simp
  have d: "set (playlist st1) \<inter> set (playlist st2) = {}"
    using b1 b2 by fastforce
  let ?A = "set (playlist st2)"
  let ?keep = "filter (\<lambda>e. fst e \<notin> set (playlist st1)) after"
  have a1: "\<forall>r\<in>?A. heap (lookupsDone decodeHtml after st2) r
              = heap (lookupsDone decodeHtml (filter (\<lambda>e. fst e \<in> ?A) after) st2) r"
    by (rule lookupsDone_agree) simp
  have a2: "\<forall>r\<in>?A. heap (lookupsDone decodeHtml ?keep st2) r
              = heap (lookupsDone decodeHtml (filter (\<lambda>e. fst e \<in> ?A) ?keep) st2) r"
    by (rule lookupsDone_agree) simp
  have "filter (\<lambda>e. fst e \<in> ?A) ?keep = filter (\<lambda>e. fst e \<in> ?A) after"
    using d by (auto intro!: filter_cong)
  then have same: "tracks_of (lookupsDone decodeHtml after st2)
                     = tracks_of (lookupsDone decodeHtml ?keep st2)"
    using a1 a2 by (simp add: tracks_of_def)
  have "?keep = []" if "list_all (\<lambda>e. fst e \<in> set (playlist st1)) after"
    using that by (simp add: list_all_iff filter_empty_conv)
  then have only: "list_all (\<lambda>e. fst e \<in> set (playlist st1)) after \<longrightarrow>
                     tracks_of (lookupsDone decodeHtml after st2) = tracks_of st2"
    using same by simp
  show ?thesis
    using sched d same only by simp
qed

lemma first_load_started:
  "loadPlaylist no_short_links nothing_liked example_input initial_player
     = (LookupsStarted, example_player)"
proof -
  have "fst (loadPlaylist no_short_links nothing_liked example_input initial_player)
          = LookupsStarted"
    unfolding example_input_def by code_simp
  then show ?thesis
    by (simp add: example_player_def prod_eq_iff)
qed

lemma second_load_started:
  "loadPlaylist no_short_links nothing_liked second_input
     (lookupsDone plain_text [] example_player) = (LookupsStarted, example_second)"
proof -
  have "fst (loadPlaylist no_short_links nothing_liked second_input example_player)
          = LookupsStarted"
    unfolding second_input_def example_player_def example_input_def by code_simp
  then show ?thesis
    by (simp add: example_second_def prod_eq_iff)
qed

lemma second_input_not_blank: "trim second_input \<noteq> []"
  unfolding second_input_def by code_simp

lemma first_load_results_belong:
  "list_all (\<lambda>e. fst e \<in> set (playlist example_player)) first_load_results"
  by (simp add: first_load_results_def example_player_playlist)

text \<open>A completed lookup does write to the track object it was started for.\<close>

lemma lookup_writes_its_track:
  "map title (tracks_of (lookupsDone plain_text first_load_results example_player))
     = [''Song A'', ''Track 2''] \<and>
   map artist (tracks_of (lookupsDone plain_text first_load_results example_player))
     = [''Artist A'', ''Error'']"
  unfolding first_load_results_def example_player_def example_input_def
  by code_simp

lemma example_schedule_tracks:
  "tracks_of (run_events no_short_links nothing_liked plain_text example_schedule
                (begin_load (lookupsDone plain_text [] example_player)))
     = tracks_of example_second"
  unfolding example_schedule_def example_second_def second_input_def example_player_def
    example_input_def
  by code_simp

text \<open>
  The map \<open>loadingStates\<close> is keyed by identifier, not by track object: when the second
  load holds an identifier of the first, a lookup of the first load that completes after
  it overwrites the state the second load has set for that identifier.
\<close>

lemma superseded_lookup_marks_identifier:
  "loadingStates (snd (loadPlaylist no_short_links nothing_liked example_input example_player))
     uuid_1 = Some Loading \<and>
   loadingStates (lookupDone plain_text 0 NoMetadata
     (snd (loadPlaylist no_short_links nothing_liked example_input example_player)))
     uuid_1 = Some LoadError"
  unfolding example_player_def example_input_def uuid_1_def
  by code_simp

theorem superseded_lookups_invisible_witness:
  "loadPlaylist no_short_links nothing_liked example_input initial_player
     = (LookupsStarted, example_player) \<and>
   trim second_input \<noteq> [] \<and>
   loadPlaylist no_short_links nothing_liked second_input
     (lookupsDone plain_text [] example_player) = (LookupsStarted, example_second) \<and>
   list_all (\<lambda>e. fst e \<in> set (playlist example_player)) first_load_results \<and>
   tracks_of (lookupsDone plain_text first_load_results example_second)
     = tracks_of example_second \<and>
   tracks_of (run_events no_short_links nothing_liked plain_text example_schedule
                (begin_load (lookupsDone plain_text [] example_player)))
     = tracks_of (run_events no_short_links nothing_liked plain_text
                    (filter (\<lambda>e. \<not> completes_on (set (playlist example_player)) e)
                       example_schedule)
                    (begin_load (lookupsDone plain_text [] example_player)))"
  using superseded_lookups_invisible
      [OF first_load_started second_input_not_blank second_load_started,
        of no_short_links nothing_liked example_schedule first_load_results]
    first_load_started second_input_not_blank second_load_started first_load_results_belong
  by blast

section \<open>The comparator shuffle is not uniform\<close>

lemma dyadic_zero_one: "dyadic 0" "dyadic 1"
proof -
  have "(0::real) = of_int 0 / 2 ^ 0" and "(1::real) = of_int 1 / 2 ^ 0"
    by simp_all
  then show "dyadic 0" and "dyadic 1"
    unfolding dyadic_def by blast+
qed

lemma dyadic_add:
  assumes "dyadic x" and "dyadic y"
  shows "dyadic (x + y)"
proof -
  from assms obtain m n m' n'
    where x: "x = of_int m / 2 ^ n" and y: "y = of_int m' / 2 ^ n'"
    unfolding dyadic_def by blast
  have "x + y = of_int (m * 2 ^ n' + m' * 2 ^ n) / 2 ^ (n + n')"
    by (simp add: x y power_add field_simps)
  then show ?thesis
    unfolding dyadic_def by blast
qed

lemma dyadic_scale:
  assumes "dyadic x"
  shows "dyadic (of_int c * x)"
proof -
  from assms obtain m n where x: "x = of_int m / 2 ^ n"
    unfolding dyadic_def by blast
  have "of_int c * x = of_int (c * m) / 2 ^ n"
    by (simp add: x)
  then show ?thesis
    unfolding dyadic_def by blast
qed

lemma dyadic_shift:
  assumes "dyadic x"
  shows "dyadic (x / 2 ^ k)"
proof -
  from assms obtain m n where x: "x = of_int m / 2 ^ n"
    unfolding dyadic_def by blast
  have "x / 2 ^ k = of_int m / 2 ^ (n + k)"
    by (simp add: x power_add)
  then show ?thesis
    unfolding dyadic_def by blast
qed

text \<open>Every probability of a run is an integer over a power of two.\<close>

lemma dyadic_prob: "dyadic (prob b t y)"
proof (induction t)
  case (Result x)
  then show ?case by (simp add: dyadic_zero_one)
next
  case (Compare f)
  have ih: "dyadic (prob b (f s) y)" for s
    using Compare.IH by blast
  have n: "dyadic (2 ^ b * prob b (f Negative) y)"
    using dyadic_scale [OF ih [of Negative], of "2 ^ b"] by simp
  have p: "dyadic ((2 ^ b - 1) * prob b (f Positive) y)"
    using dyadic_scale [OF ih [of Positive], of "2 ^ b - 1"] by simp
  have "dyadic (2 ^ b * prob b (f Negative) y + prob b (f Zero) y
                 + (2 ^ b - 1) * prob b (f Positive) y)"
    by (intro dyadic_add n p ih)
  from dyadic_shift [OF this, of "Suc b"] show ?case by simp
qed

lemma pow2_mod3: "(2::int) ^ n mod 3 = 1 \<or> (2::int) ^ n mod 3 = 2"
proof (induction n)
  case 0
  then show ?case by simp
next
  case (Suc n)
  have "\<And>x::int. x mod 3 = 1 \<or> x mod 3 = 2 \<Longrightarrow> (2 * x) mod 3 = 1 \<or> (2 * x) mod 3 = 2"
    by presburger
  from this [OF Suc.IH] show ?case by simp
qed

lemma sixth_not_dyadic: "\<not> dyadic (1 / 6)"
proof
  assume "dyadic (1 / 6)"
  then obtain m :: int and n :: nat where "(1::real) / 6 = of_int m / 2 ^ n"
    unfolding dyadic_def by blast
  then have "(2::real) ^ n = of_int (6 * m)"
    by (simp add: field_simps)
  then have "(of_int (2 ^ n) :: real) = of_int (6 * m)"
    by simp
  then have e: "(2::int) ^ n = 6 * m"
    using of_int_eq_iff by blast
  have "(6 * m) mod 3 = 0"
    by presburger
  then show False
    using pow2_mod3 [of n] e by simp
qed

text \<open>A comparator that is asked once, to order two tracks, gives each order its share.\<close>

lemma prob_one_comparison:
  "prob b (Compare (\<lambda>s. if s = Negative then Result [0::nat, 1] else Result [1, 0])) [0, 1]
     = 1 / 2"
  by simp

text \<open>
  Claim C4 fails on the code. Enabling shuffle runs the engine's sort with the comparator
  \<open>() => Math.random() - 0.5\<close>. Whatever the engine's sort does with the signs it is given,
  and whatever the precision of \<open>Math.random\<close>, no order of the playlist comes out with
  probability one sixth, so the six orders of a playlist of three tracks are never
  equally likely.
\<close>

theorem comparator_shuffle_not_uniform:
  "prob b (map_random playlist (toggleShuffle_random engine_sort st)) order \<noteq> 1 / 6"
  using dyadic_prob [of b "map_random playlist (toggleShuffle_random engine_sort st)" order]
    sixth_not_dyadic
  by metis

end
